theory Spec2Isabelle
  imports Main "HOL-Library.Product_Lexorder"
begin

section \<open>Entity store\<close>

text \<open>
  The tables read and written by the migrations. Identifiers are UUIDs, modelled as
  natural numbers; timestamps are integers (microseconds since the epoch). A nullable
  column is an \<open>option\<close>, with \<open>None\<close> for SQL's NULL. The primary keys \<open>id\<close> are
  not nullable. The \<open>CREATE TABLE\<close> statements of \<open>exams\<close>, \<open>violations\<close>,
  \<open>students\<close> and \<open>exam_templates\<close> are not part of the sources at hand; the columns
  below are the ones the migrations mention, and the status values are the four the
  specification lists.
\<close>

type_synonym uuid = nat
type_synonym timestamptz = int

datatype exam_status = not_started | in_progress | completed | abandoned

record student =
  s_id :: uuid
  s_name :: "string option"
  s_student_id :: "string option"

record exam_template =
  et_id :: uuid
  et_subject_code :: "string option"
  et_subject_name :: "string option"

record exam =
  e_id :: uuid
  e_student_id :: "uuid option"
  e_status :: "exam_status option"
  e_started_at :: "timestamptz option"
  e_completed_at :: "timestamptz option"
  e_created_at :: "timestamptz option"
  e_exam_template_id :: "uuid option"
  e_subject_code :: "string option"

record violation =
  v_id :: uuid
  v_exam_id :: "uuid option"
  v_student_id :: "uuid option"
  v_violation_type :: "string option"
  v_timestamp :: "timestamptz option"
  v_details :: "string option"

record db =
  students :: "student list"
  exam_templates :: "exam_template list"
  exams :: "exam list"
  violations :: "violation list"

datatype error = LinkageMismatch | UniqueViolation

subsection \<open>SQL expressions\<close>

text \<open>
  A comparison with NULL is not true. The conditions of the migrations combine
  comparisons with AND and OR only, so a row passes a WHERE clause exactly when the
  condition is true with every comparison on NULL read as false.
\<close>

definition sql_eq :: "'a option \<Rightarrow> 'a option \<Rightarrow> bool" where
  "sql_eq a b = (case (a, b) of (Some x, Some y) \<Rightarrow> x = y | _ \<Rightarrow> False)"

definition sql_ge :: "timestamptz option \<Rightarrow> timestamptz option \<Rightarrow> bool" where
  "sql_ge a b = (case (a, b) of (Some x, Some y) \<Rightarrow> x \<ge> y | _ \<Rightarrow> False)"

definition sql_le :: "timestamptz option \<Rightarrow> timestamptz option \<Rightarrow> bool" where
  "sql_le a b = (case (a, b) of (Some x, Some y) \<Rightarrow> x \<le> y | _ \<Rightarrow> False)"

definition coalesce :: "'a option \<Rightarrow> 'a \<Rightarrow> 'a option" where
  "coalesce a b = (case a of Some x \<Rightarrow> Some x | None \<Rightarrow> Some b)"

text \<open>
  \<open>ORDER BY k\<close> is a stable sort on a key, \<open>LIMIT 1\<close> keeps the first row. Where two
  rows have the same key SQL may return either; the model returns the one that comes
  first in the table. \<open>DESC NULLS LAST\<close> sorts the non-null values first, largest
  first; a plain \<open>DESC\<close> is \<open>DESC NULLS FIRST\<close>.
\<close>

definition desc_nulls_last :: "timestamptz option \<Rightarrow> bool \<times> int" where
  "desc_nulls_last t = (case t of Some x \<Rightarrow> (False, - x) | None \<Rightarrow> (True, 0))"

definition desc_nulls_first :: "timestamptz option \<Rightarrow> bool \<times> int" where
  "desc_nulls_first t = (case t of None \<Rightarrow> (False, 0) | Some x \<Rightarrow> (True, - x))"

definition limit1 :: "'a list \<Rightarrow> 'a option" where
  "limit1 rows = (case rows of [] \<Rightarrow> None | r # _ \<Rightarrow> Some r)"

section \<open>Linkage validator\<close>

text \<open>
  \<open>validate_violation_exam_student_consistency\<close>, the row trigger that runs before
  every insert and update on \<open>violations\<close>. \<open>RAISE EXCEPTION\<close> is the result
  \<open>Inl LinkageMismatch\<close>; otherwise the trigger returns the row to be stored. A
  \<open>SELECT ... INTO\<close> that finds no row assigns NULL.
\<close>

definition exam_student_matches :: "exam list \<Rightarrow> uuid option \<Rightarrow> uuid option \<Rightarrow> bool" where
  "exam_student_matches exs ex st =
     (\<exists>e \<in> set exs. sql_eq (Some (e_id e)) ex \<and> sql_eq (e_student_id e) st)"

definition select_exam_student :: "exam list \<Rightarrow> uuid option \<Rightarrow> uuid option" where
  "select_exam_student exs ex =
     (case limit1 (filter (\<lambda>e. sql_eq (Some (e_id e)) ex) exs) of
        None \<Rightarrow> None
      | Some e \<Rightarrow> e_student_id e)"

definition active_or_completed :: "exam \<Rightarrow> bool" where
  "active_or_completed e = (e_status e = Some in_progress \<or> e_status e = Some completed)"

definition select_recent_exam :: "exam list \<Rightarrow> uuid option \<Rightarrow> uuid option" where
  "select_recent_exam exs st =
     map_option e_id
       (limit1
         (sort_key (\<lambda>e. (desc_nulls_last (e_started_at e), desc_nulls_first (e_created_at e)))
           (filter (\<lambda>e. sql_eq (e_student_id e) st \<and> active_or_completed e) exs)))"

definition validate_violation_exam_student_consistency ::
  "exam list \<Rightarrow> violation \<Rightarrow> error + violation" where
  "validate_violation_exam_student_consistency exs NEW =
     (if v_exam_id NEW \<noteq> None \<and> v_student_id NEW \<noteq> None \<and>
         \<not> exam_student_matches exs (v_exam_id NEW) (v_student_id NEW)
      then Inl LinkageMismatch
      else
        let NEW1 = (if v_exam_id NEW \<noteq> None \<and> v_student_id NEW = None
                    then NEW\<lparr>v_student_id := select_exam_student exs (v_exam_id NEW)\<rparr>
                    else NEW);
            NEW2 = (if v_exam_id NEW1 = None \<and> v_student_id NEW1 \<noteq> None
                    then NEW1\<lparr>v_exam_id := select_recent_exam exs (v_student_id NEW1)\<rparr>
                    else NEW1)
        in Inr NEW2)"

subsection \<open>Statements on the violations table\<close>

text \<open>
  An \<open>UPDATE ... SET ... WHERE\<close> visits the rows that satisfy the condition, hands
  each changed row to the trigger and stores what the trigger returns. An exception in
  any row aborts the statement, and nothing of it is kept. The second component of the
  result is the number of rows the statement processed (\<open>ROW_COUNT\<close>; \<open>FOUND\<close> is
  \<open>ROW_COUNT > 0\<close>): a row counts when the condition selects it, whether or not its
  values change. The flag says whether the trigger is enabled. This is the statement
  as the reconciliation job issues it: its updates leave \<open>id\<close> as it is, so the
  primary key cannot fail there.
\<close>

definition before_row_trigger :: "bool \<Rightarrow> exam list \<Rightarrow> violation \<Rightarrow> error + violation" where
  "before_row_trigger trig exs NEW =
     (if trig then validate_violation_exam_student_consistency exs NEW else Inr NEW)"

fun update_statement ::
  "bool \<Rightarrow> exam list \<Rightarrow> (violation \<Rightarrow> bool) \<Rightarrow> (violation \<Rightarrow> violation) \<Rightarrow> violation list
     \<Rightarrow> error + (violation list \<times> nat)" where
  "update_statement trig exs cond upd [] = Inr ([], 0)"
| "update_statement trig exs cond upd (v # vs) =
     (if cond v then
        (case before_row_trigger trig exs (upd v) of
           Inl err \<Rightarrow> Inl err
         | Inr v' \<Rightarrow>
             (case update_statement trig exs cond upd vs of
                Inl err \<Rightarrow> Inl err
              | Inr (vs', n) \<Rightarrow> Inr (v' # vs', Suc n)))
      else
        (case update_statement trig exs cond upd vs of
           Inl err \<Rightarrow> Inl err
         | Inr (vs', n) \<Rightarrow> Inr (v # vs', n)))"

text \<open>
  The writes of the collaborators: a new exam, a new violation, an update of
  violations. The primary keys reject a duplicate \<open>id\<close>. The trigger runs before the
  key is checked. An update may change any column, \<open>id\<close> among them, and the key is
  not deferrable: it is checked for each row as the row is stored, against the rows the
  statement has already stored and the rows it has not visited yet. \<open>update_rows\<close>
  visits the rows in table order; its third list holds the rows behind the current one.
\<close>

definition create_exam :: "db \<Rightarrow> exam \<Rightarrow> error + db" where
  "create_exam d e =
     (if e_id e \<in> set (map e_id (exams d)) then Inl UniqueViolation
      else Inr (d\<lparr>exams := exams d @ [e]\<rparr>))"

definition insert_violation :: "db \<Rightarrow> violation \<Rightarrow> error + db" where
  "insert_violation d NEW =
     (case validate_violation_exam_student_consistency (exams d) NEW of
        Inl err \<Rightarrow> Inl err
      | Inr row \<Rightarrow>
          if v_id row \<in> set (map v_id (violations d)) then Inl UniqueViolation
          else Inr (d\<lparr>violations := violations d @ [row]\<rparr>))"

fun update_rows ::
  "exam list \<Rightarrow> (violation \<Rightarrow> bool) \<Rightarrow> (violation \<Rightarrow> violation) \<Rightarrow> violation list
     \<Rightarrow> violation list \<Rightarrow> error + violation list" where
  "update_rows exs cond upd stored [] = Inr stored"
| "update_rows exs cond upd stored (v # todo) =
     (if cond v then
        (case validate_violation_exam_student_consistency exs (upd v) of
           Inl err \<Rightarrow> Inl err
         | Inr v' \<Rightarrow>
             if v_id v' \<in> set (map v_id (stored @ todo)) then Inl UniqueViolation
             else update_rows exs cond upd (stored @ [v']) todo)
      else update_rows exs cond upd (stored @ [v]) todo)"

definition update_violations ::
  "db \<Rightarrow> (violation \<Rightarrow> bool) \<Rightarrow> (violation \<Rightarrow> violation) \<Rightarrow> error + db" where
  "update_violations d cond upd =
     (case update_rows (exams d) cond upd [] (violations d) of
        Inl err \<Rightarrow> Inl err
      | Inr vs' \<Rightarrow> Inr (d\<lparr>violations := vs'\<rparr>))"

datatype store_write =
    CreateExam exam
  | InsertViolation violation
  | UpdateViolations "violation \<Rightarrow> bool" "violation \<Rightarrow> violation"

fun write_result :: "db \<Rightarrow> store_write \<Rightarrow> error + db" where
  "write_result d (CreateExam e) = create_exam d e"
| "write_result d (InsertViolation NEW) = insert_violation d NEW"
| "write_result d (UpdateViolations cond upd) = update_violations d cond upd"

text \<open>A rejected write is rolled back: the store stays as it was.\<close>

definition commit_write :: "db \<Rightarrow> store_write \<Rightarrow> db" where
  "commit_write d w = (case write_result d w of Inl err \<Rightarrow> d | Inr d' \<Rightarrow> d')"

fun commit_all :: "db \<Rightarrow> store_write list \<Rightarrow> db" where
  "commit_all d [] = d"
| "commit_all d (w # ws) = commit_all (commit_write d w) ws"

text \<open>
  Invariant I1 for one row: when both links are set, the exam the row names belongs to
  the student the row names. \<open>exam_owner\<close> is the lookup \<open>ExamSession[examId].studentId\<close>.
\<close>

definition exam_owner :: "exam list \<Rightarrow> uuid \<Rightarrow> uuid option" where
  "exam_owner exs x = (case find (\<lambda>e. e_id e = x) exs of None \<Rightarrow> None | Some e \<Rightarrow> e_student_id e)"

definition I1 :: "exam list \<Rightarrow> violation \<Rightarrow> bool" where
  "I1 exs v =
     (case (v_exam_id v, v_student_id v) of
        (Some x, Some s) \<Rightarrow> exam_owner exs x = Some s
      | _ \<Rightarrow> True)"

definition store_ok :: "db \<Rightarrow> bool" where
  "store_ok d = (distinct (map e_id (exams d)) \<and> (\<forall>v \<in> set (violations d). I1 (exams d) v))"

text \<open>
  The order of the best-effort resolution in the specification's words: \<open>c\<close> comes
  strictly before \<open>e\<close> under "startedAt descending, nulls last, then createdAt
  descending" (a null createdAt sorts first, as PostgreSQL's \<open>DESC\<close> does).
\<close>

definition started_desc_nulls_last :: "timestamptz option \<Rightarrow> timestamptz option \<Rightarrow> bool" where
  "started_desc_nulls_last a b =
     (case (a, b) of
        (Some x, Some y) \<Rightarrow> x > y
      | (Some x, None) \<Rightarrow> True
      | (None, _) \<Rightarrow> False)"

definition created_desc :: "timestamptz option \<Rightarrow> timestamptz option \<Rightarrow> bool" where
  "created_desc a b =
     (case (a, b) of
        (Some x, Some y) \<Rightarrow> x > y
      | (None, Some y) \<Rightarrow> True
      | (_, None) \<Rightarrow> False)"

definition more_recent :: "exam \<Rightarrow> exam \<Rightarrow> bool" where
  "more_recent c e =
     (started_desc_nulls_last (e_started_at c) (e_started_at e) \<or>
      (e_started_at c = e_started_at e \<and> created_desc (e_created_at c) (e_created_at e)))"

section \<open>Reconciliation job\<close>

text \<open>
  \<open>fix_violations_exam_links\<close>. \<open>NOW()\<close> is the start time of the transaction, one
  value for the whole call. A \<open>FOR ... IN SELECT\<close> loop runs over the rows the query
  returns when the loop starts; the statements of the loop body do not change that
  list. \<open>v_record\<close> holds the selected columns of the current row; the model passes
  the row and reads only those columns. The counters are PL/pgSQL integers and are
  modelled without a bound. The \<open>UPDATE\<close>s of the job are statements on
  \<open>violations\<close>, so the row trigger runs on them when it is enabled.
\<close>

definition backfill_cursor :: "violation list \<Rightarrow> violation list" where
  "backfill_cursor vs =
     sort_key (\<lambda>v. desc_nulls_first (v_timestamp v))
       (filter (\<lambda>v. v_exam_id v = None \<and> v_student_id v \<noteq> None) vs)"

definition timestamp_in_window :: "timestamptz \<Rightarrow> timestamptz option \<Rightarrow> exam \<Rightarrow> bool" where
  "timestamp_in_window now ts e =
     (sql_ge ts (e_started_at e) \<and> sql_le ts (coalesce (e_completed_at e) now))"

definition latest_created_exam :: "exam list \<Rightarrow> uuid option \<Rightarrow> uuid option" where
  "latest_created_exam exs st =
     map_option e_id
       (limit1
         (sort_key (\<lambda>e. desc_nulls_first (e_created_at e))
           (filter (\<lambda>e. sql_eq (e_student_id e) st) exs)))"

definition backfill_candidate :: "timestamptz \<Rightarrow> exam list \<Rightarrow> violation \<Rightarrow> exam \<Rightarrow> bool" where
  "backfill_candidate now exs v_record e =
     (sql_eq (e_student_id e) (v_student_id v_record) \<and>
      (timestamp_in_window now (v_timestamp v_record) e \<or>
       (e_started_at e = None \<and>
        sql_eq (Some (e_id e)) (latest_created_exam exs (v_student_id v_record)))))"

definition backfill_rank :: "timestamptz \<Rightarrow> violation \<Rightarrow> exam \<Rightarrow> nat" where
  "backfill_rank now v_record e =
     (if timestamp_in_window now (v_timestamp v_record) e then 1 else 2)"

definition select_backfill_exam :: "timestamptz \<Rightarrow> exam list \<Rightarrow> violation \<Rightarrow> uuid option" where
  "select_backfill_exam now exs v_record =
     map_option e_id
       (limit1
         (sort_key (\<lambda>e. (backfill_rank now v_record e, desc_nulls_last (e_started_at e)))
           (filter (backfill_candidate now exs v_record) exs)))"

fun backfill_loop ::
  "bool \<Rightarrow> timestamptz \<Rightarrow> exam list \<Rightarrow> violation list \<Rightarrow> nat \<times> nat \<times> violation list
     \<Rightarrow> error + (nat \<times> nat \<times> violation list)" where
  "backfill_loop trig now exs [] st = Inr st"
| "backfill_loop trig now exs (v_record # rest) (v_fixed, v_skipped, vs) =
     (case update_statement trig exs
             (\<lambda>v. v_id v = v_id v_record \<and> v_exam_id v = None)
             (\<lambda>v. v\<lparr>v_exam_id := select_backfill_exam now exs v_record\<rparr>) vs of
        Inl err \<Rightarrow> Inl err
      | Inr (vs', n) \<Rightarrow>
          if n > 0 then backfill_loop trig now exs rest (v_fixed + 1, v_skipped, vs')
          else backfill_loop trig now exs rest (v_fixed, v_skipped + 1, vs'))"

definition repair_cursor :: "exam list \<Rightarrow> violation list \<Rightarrow> violation list" where
  "repair_cursor exs vs =
     filter (\<lambda>v. v_exam_id v \<noteq> None \<and> v_student_id v \<noteq> None \<and>
                 \<not> exam_student_matches exs (v_exam_id v) (v_student_id v)) vs"

fun repair_loop ::
  "bool \<Rightarrow> exam list \<Rightarrow> violation list \<Rightarrow> nat \<times> nat \<times> violation list
     \<Rightarrow> error + (nat \<times> nat \<times> violation list)" where
  "repair_loop trig exs [] st = Inr st"
| "repair_loop trig exs (v_record # rest) (v_fixed, v_skipped, vs) =
     (case update_statement trig exs
             (\<lambda>v. v_id v = v_id v_record)
             (\<lambda>v. v\<lparr>v_student_id := select_exam_student exs (v_exam_id v_record)\<rparr>) vs of
        Inl err \<Rightarrow> Inl err
      | Inr (vs', n) \<Rightarrow>
          if n > 0 then repair_loop trig exs rest (v_fixed + 1, v_skipped, vs')
          else repair_loop trig exs rest (v_fixed, v_skipped, vs'))"

definition backfill_pass ::
  "bool \<Rightarrow> timestamptz \<Rightarrow> exam list \<Rightarrow> nat \<times> nat \<times> violation list
     \<Rightarrow> error + (nat \<times> nat \<times> violation list)" where
  "backfill_pass trig now exs st =
     backfill_loop trig now exs (backfill_cursor (snd (snd st))) st"

definition repair_pass ::
  "bool \<Rightarrow> exam list \<Rightarrow> nat \<times> nat \<times> violation list
     \<Rightarrow> error + (nat \<times> nat \<times> violation list)" where
  "repair_pass trig exs st = repair_loop trig exs (repair_cursor exs (snd (snd st))) st"

definition fix_violations_exam_links ::
  "bool \<Rightarrow> timestamptz \<Rightarrow> db \<Rightarrow> error + ((nat \<times> nat) \<times> db)" where
  "fix_violations_exam_links trig now d =
     (case backfill_pass trig now (exams d) (0, 0, violations d) of
        Inl err \<Rightarrow> Inl err
      | Inr st1 \<Rightarrow>
          (case repair_pass trig (exams d) st1 of
             Inl err \<Rightarrow> Inl err
           | Inr (v_fixed, v_skipped, vs) \<Rightarrow>
               Inr ((v_fixed, v_skipped), d\<lparr>violations := vs\<rparr>)))"

text \<open>
  What one iteration stores in the row it visits, as the lemmas below show: the first
  loop writes the exam the subquery finds and, when the subquery is empty and the
  trigger is enabled, the trigger's own resolution; the second loop writes the student
  of the row's exam.
\<close>

definition backfilled :: "bool \<Rightarrow> timestamptz \<Rightarrow> exam list \<Rightarrow> violation \<Rightarrow> violation" where
  "backfilled trig now exs v =
     v\<lparr>v_exam_id :=
        (case select_backfill_exam now exs v of
           Some x \<Rightarrow> Some x
         | None \<Rightarrow> if trig then select_recent_exam exs (v_student_id v) else None)\<rparr>"

definition repaired :: "exam list \<Rightarrow> violation \<Rightarrow> violation" where
  "repaired exs v = v\<lparr>v_student_id := select_exam_student exs (v_exam_id v)\<rparr>"

definition needs_backfill :: "violation \<Rightarrow> bool" where
  "needs_backfill v = (v_exam_id v = None \<and> v_student_id v \<noteq> None)"

definition mismatched :: "exam list \<Rightarrow> violation \<Rightarrow> bool" where
  "mismatched exs v =
     (v_exam_id v \<noteq> None \<and> v_student_id v \<noteq> None \<and>
      \<not> exam_student_matches exs (v_exam_id v) (v_student_id v))"

text \<open>
  The order of the backfill in the specification's words: \<open>c\<close> comes strictly before
  \<open>e\<close> when its rank is smaller, or the ranks are equal and its startedAt comes first
  under "descending, nulls last".
\<close>

definition ranked_before :: "timestamptz \<Rightarrow> violation \<Rightarrow> exam \<Rightarrow> exam \<Rightarrow> bool" where
  "ranked_before now v c e =
     (backfill_rank now v c < backfill_rank now v e \<or>
      (backfill_rank now v c = backfill_rank now v e \<and>
       started_desc_nulls_last (e_started_at c) (e_started_at e)))"

text \<open>
  The backfill choice as the specification words it: every exam of the student is a
  candidate, of rank 1 when its window contains the timestamp and of rank 2 otherwise.
\<close>

definition spec_backfill_exam :: "timestamptz \<Rightarrow> exam list \<Rightarrow> violation \<Rightarrow> uuid option" where
  "spec_backfill_exam now exs v =
     map_option e_id
       (limit1
         (sort_key (\<lambda>e. (backfill_rank now v e, desc_nulls_last (e_started_at e)))
           (filter (\<lambda>e. sql_eq (e_student_id e) (v_student_id v)) exs)))"

text \<open>Two runs of the job in a row, the second on the store the first one left.\<close>

definition run_twice ::
  "bool \<Rightarrow> timestamptz \<Rightarrow> timestamptz \<Rightarrow> db \<Rightarrow> error + ((nat \<times> nat) \<times> (nat \<times> nat))" where
  "run_twice trig now1 now2 d =
     (case fix_violations_exam_links trig now1 d of
        Inl err \<Rightarrow> Inl err
      | Inr (counts1, d1) \<Rightarrow>
          (case fix_violations_exam_links trig now2 d1 of
             Inl err \<Rightarrow> Inl err
           | Inr (counts2, d2) \<Rightarrow> Inr (counts1, counts2)))"

section \<open>Aggregation view\<close>

text \<open>
  The materialized view \<open>violations_by_exam_student\<close>: the joins produce one row for
  every combination of an exam, its student, its template (or NULL) and a violation
  joined to it (or NULL); \<open>GROUP BY\<close> collects the rows with equal key columns, one
  rollup row per group. SQL leaves the order of the groups and of the aggregated array
  open; the model keeps one fixed order. \<open>COUNT(v.id)\<close> counts the rows of the group
  that carry a violation, \<open>MIN\<close> and \<open>MAX\<close> skip NULLs and are NULL when nothing is
  left, and so is \<open>ARRAY_AGG\<close> with its filter.
\<close>

record rollup =
  r_exam_id :: uuid
  r_student_id :: "uuid option"
  r_student_name :: "string option"
  r_student_identifier :: "string option"
  r_subject_code :: "string option"
  r_subject_name :: "string option"
  r_violation_count :: nat
  r_violation_types :: "string list option"
  r_first_violation :: "timestamptz option"
  r_last_violation :: "timestamptz option"

type_synonym joined = "exam \<times> student \<times> exam_template option \<times> violation option"

type_synonym group_key =
  "uuid \<times> uuid option \<times> string option \<times> string option \<times> string option \<times> string option
     \<times> string option"

definition left_join :: "'a list \<Rightarrow> ('a \<Rightarrow> bool) \<Rightarrow> 'a option list" where
  "left_join rows cond = (case filter cond rows of [] \<Rightarrow> [None] | m # ms \<Rightarrow> map Some (m # ms))"

definition violation_joins :: "exam \<Rightarrow> violation \<Rightarrow> bool" where
  "violation_joins e v =
     (sql_eq (v_exam_id v) (Some (e_id e)) \<and> sql_eq (v_student_id v) (e_student_id e))"

definition joined_rows :: "db \<Rightarrow> joined list" where
  "joined_rows d =
     concat (map (\<lambda>e.
       concat (map (\<lambda>s.
         concat (map (\<lambda>et.
           map (\<lambda>v. (e, s, et, v)) (left_join (violations d) (violation_joins e)))
           (left_join (exam_templates d) (\<lambda>et. sql_eq (e_exam_template_id e) (Some (et_id et))))))
         (filter (\<lambda>s. sql_eq (e_student_id e) (Some (s_id s))) (students d))))
       (exams d))"

definition et_column :: "(exam_template \<Rightarrow> 'a option) \<Rightarrow> exam_template option \<Rightarrow> 'a option" where
  "et_column col et = (case et of None \<Rightarrow> None | Some t \<Rightarrow> col t)"

definition group_by :: "joined \<Rightarrow> group_key" where
  "group_by j =
     (case j of (e, s, et, v) \<Rightarrow>
        (e_id e, e_student_id e, s_name s, s_student_id s, e_subject_code e,
         et_column et_subject_code et, et_column et_subject_name et))"

definition group_violations :: "joined list \<Rightarrow> violation list" where
  "group_violations js = concat (map (\<lambda>j. case snd (snd (snd j)) of None \<Rightarrow> [] | Some v \<Rightarrow> [v]) js)"

definition non_null :: "'a option list \<Rightarrow> 'a list" where
  "non_null xs = concat (map (\<lambda>x. case x of None \<Rightarrow> [] | Some y \<Rightarrow> [y]) xs)"

definition sql_min :: "timestamptz option list \<Rightarrow> timestamptz option" where
  "sql_min xs = (case non_null xs of [] \<Rightarrow> None | t # ts \<Rightarrow> Some (fold min ts t))"

definition sql_max :: "timestamptz option list \<Rightarrow> timestamptz option" where
  "sql_max xs = (case non_null xs of [] \<Rightarrow> None | t # ts \<Rightarrow> Some (fold max ts t))"

definition array_agg_distinct :: "string option list \<Rightarrow> string list option" where
  "array_agg_distinct xs = (case non_null xs of [] \<Rightarrow> None | t # ts \<Rightarrow> Some (remdups (t # ts)))"

definition rollup_row :: "group_key \<Rightarrow> joined list \<Rightarrow> rollup" where
  "rollup_row k js =
     (case k of (exam, st, name, ident, e_code, et_code, et_name) \<Rightarrow>
        \<lparr>r_exam_id = exam,
         r_student_id = st,
         r_student_name = name,
         r_student_identifier = ident,
         r_subject_code = (case et_code of Some c \<Rightarrow> Some c | None \<Rightarrow> e_code),
         r_subject_name = et_name,
         r_violation_count = length (group_violations js),
         r_violation_types = array_agg_distinct (map v_violation_type (group_violations js)),
         r_first_violation = sql_min (map v_timestamp (group_violations js)),
         r_last_violation = sql_max (map v_timestamp (group_violations js))\<rparr>)"

definition rollups :: "joined list \<Rightarrow> rollup list" where
  "rollups js =
     map (\<lambda>k. rollup_row k (filter (\<lambda>j. group_by j = k) js)) (remdups (map group_by js))"

definition violations_by_exam_student :: "db \<Rightarrow> rollup list" where
  "violations_by_exam_student d = rollups (joined_rows d)"

section \<open>Tab-liveness detector\<close>

text \<open>
  The resources \<open>checkSingleTab\<close> of \<open>CompatibilityCheck.tsx\<close> acquires and the
  places that release them. The page state holds the step state shown to the user, the
  two refs of the component, and the browser's side: the timers that are scheduled, the
  broadcast channels created, the storage listeners registered on the window and the
  shared localStorage slot. Handles are natural numbers handed out in order; a run of
  the check is identified by the handle of its channel. The \<open>cleanup\<close> closure a run
  stores on its channel is modelled by the timer handles it captured. What the timer
  callbacks and message handlers do when they fire is outside the model.
\<close>

datatype step_status = status_idle | status_running | status_success | status_error

record step_state =
  ss_status :: step_status
  ss_message :: "string option"

datatype timer_kind = heartbeatInterval | requestInterval | storageInterval
  | initialCheckTimeout | continuousCheckInterval

record timer =
  t_handle :: nat
  t_kind :: timer_kind
  t_channel :: nat

record channel =
  ch_handle :: nat
  ch_closed :: bool
  ch_onmessage :: bool
  ch_cleanup :: "nat list option"

record page =
  singleTabCheck :: step_state
  tabCheckChannelRef :: "nat option"
  tabCheckIntervalRef :: "nat option"
  scheduled :: "timer list"
  channels :: "channel list"
  storage_handlers :: "nat list"
  local_slot :: "nat option"
  next_handle :: nat

definition close_channel :: "nat \<Rightarrow> channel list \<Rightarrow> channel list" where
  "close_channel c chs = map (\<lambda>ch. if ch_handle ch = c then ch\<lparr>ch_closed := True\<rparr> else ch) chs"

definition clear_timer :: "nat \<Rightarrow> timer list \<Rightarrow> timer list" where
  "clear_timer h ts = filter (\<lambda>t. t_handle t \<noteq> h) ts"

definition checkSingleTab :: "bool \<Rightarrow> page \<Rightarrow> page" where
  "checkSingleTab broadcast_supported p =
     (if \<not> broadcast_supported then
        p\<lparr>singleTabCheck := \<lparr>ss_status = status_error,
             ss_message = Some ''Single tab detection not supported in this browser. Please use Chrome or Edge.''\<rparr>\<rparr>
      else
        let p1 = (case tabCheckChannelRef p of
                    None \<Rightarrow> p
                  | Some c \<Rightarrow> p\<lparr>channels := close_channel c (channels p),
                                 tabCheckChannelRef := None\<rparr>);
            p2 = (case tabCheckIntervalRef p1 of
                    None \<Rightarrow> p1
                  | Some h \<Rightarrow> p1\<lparr>scheduled := clear_timer h (scheduled p1),
                                  tabCheckIntervalRef := None\<rparr>);
            c = next_handle p2
        in p2\<lparr>singleTabCheck := \<lparr>ss_status = status_running,
                 ss_message = Some ''Checking for multiple tabs...''\<rparr>,
               tabCheckChannelRef := Some c,
               channels := channels p2 @
                 [\<lparr>ch_handle = c, ch_closed = False, ch_onmessage = True,
                   ch_cleanup = Some [c + 4, c + 1, c + 2, c + 3, c + 5]\<rparr>],
               scheduled := scheduled p2 @
                 [\<lparr>t_handle = c + 1, t_kind = heartbeatInterval, t_channel = c\<rparr>,
                  \<lparr>t_handle = c + 2, t_kind = requestInterval, t_channel = c\<rparr>,
                  \<lparr>t_handle = c + 3, t_kind = storageInterval, t_channel = c\<rparr>,
                  \<lparr>t_handle = c + 4, t_kind = initialCheckTimeout, t_channel = c\<rparr>,
                  \<lparr>t_handle = c + 5, t_kind = continuousCheckInterval, t_channel = c\<rparr>],
               storage_handlers := storage_handlers p2 @ [c],
               local_slot := Some c,
               tabCheckIntervalRef := Some (c + 5),
               next_handle := c + 6\<rparr>)"

text \<open>The \<open>cleanup\<close> closure of the run whose channel is \<open>c\<close>.\<close>

definition cleanup :: "nat \<Rightarrow> page \<Rightarrow> page" where
  "cleanup c p =
     (case find (\<lambda>ch. ch_handle ch = c) (channels p) of
        None \<Rightarrow> p
      | Some ch \<Rightarrow>
          (case ch_cleanup ch of
             None \<Rightarrow> p
           | Some hs \<Rightarrow>
               p\<lparr>scheduled := filter (\<lambda>t. t_handle t \<notin> set hs) (scheduled p),
                 storage_handlers := removeAll c (storage_handlers p),
                 channels := map (\<lambda>ch. if ch_handle ch = c
                                         then ch\<lparr>ch_onmessage := False, ch_closed := True\<rparr>
                                         else ch) (channels p),
                 local_slot := None,
                 tabCheckChannelRef := None,
                 tabCheckIntervalRef := None\<rparr>))"

text \<open>The effect cleanup that runs when the component unmounts.\<close>

definition unmount :: "page \<Rightarrow> page" where
  "unmount p =
     (let p1 = (case tabCheckChannelRef p of
                  None \<Rightarrow> p
                | Some c \<Rightarrow>
                    (case find (\<lambda>ch. ch_handle ch = c) (channels p) of
                       None \<Rightarrow> p\<lparr>tabCheckChannelRef := None\<rparr>
                     | Some ch \<Rightarrow>
                         (if ch_cleanup ch \<noteq> None then (cleanup c p)\<lparr>tabCheckChannelRef := None\<rparr>
                          else p\<lparr>channels := close_channel c (channels p),
                                 tabCheckChannelRef := None\<rparr>)))
      in (case tabCheckIntervalRef p1 of
            None \<Rightarrow> p1
          | Some h \<Rightarrow> p1\<lparr>scheduled := clear_timer h (scheduled p1),
                          tabCheckIntervalRef := None\<rparr>))"

definition initial_page :: page where
  "initial_page =
     \<lparr>singleTabCheck = \<lparr>ss_status = status_idle, ss_message = None\<rparr>,
      tabCheckChannelRef = None, tabCheckIntervalRef = None,
      scheduled = [], channels = [], storage_handlers = [], local_slot = None,
      next_handle = 0\<rparr>"

text \<open>The timers of the run with channel \<open>c\<close> that are still scheduled.\<close>

definition timers_of_run :: "nat \<Rightarrow> page \<Rightarrow> timer_kind list" where
  "timers_of_run c p = map t_kind (filter (\<lambda>t. t_channel t = c) (scheduled p))"

subsection \<open>Example stores\<close>

definition exam_E1 :: exam where
  "exam_E1 = \<lparr>e_id = 1, e_student_id = Some 1, e_status = Some in_progress,
     e_started_at = Some 1000, e_completed_at = None, e_created_at = Some 900,
     e_exam_template_id = None, e_subject_code = None\<rparr>"

definition violation_V1 :: violation where
  "violation_V1 = \<lparr>v_id = 7, v_exam_id = Some 1, v_student_id = Some 1,
     v_violation_type = Some ''tab_switch'', v_timestamp = Some 1300, v_details = None\<rparr>"

definition violation_V2 :: violation where
  "violation_V2 = \<lparr>v_id = 8, v_exam_id = Some 1, v_student_id = Some 1,
     v_violation_type = Some ''face_missing'', v_timestamp = Some 1400, v_details = None\<rparr>"

definition store_K :: db where
  "store_K = \<lparr>students = [], exam_templates = [], exams = [exam_E1],
     violations = [violation_V1, violation_V2]\<rparr>"

definition store_S1 :: db where
  "store_S1 = \<lparr>students = [], exam_templates = [], exams = [exam_E1], violations = [violation_V1]\<rparr>"

definition exam_E2 :: exam where
  "exam_E2 = \<lparr>e_id = 2, e_student_id = Some 1, e_status = Some completed,
     e_started_at = Some 2000, e_completed_at = Some 2500, e_created_at = Some 1900,
     e_exam_template_id = None, e_subject_code = None\<rparr>"

definition exam_E3 :: exam where
  "exam_E3 = \<lparr>e_id = 3, e_student_id = Some 1, e_status = Some abandoned,
     e_started_at = Some 3000, e_completed_at = None, e_created_at = Some 2900,
     e_exam_template_id = None, e_subject_code = None\<rparr>"

definition violation_N1 :: violation where
  "violation_N1 = \<lparr>v_id = 8, v_exam_id = None, v_student_id = Some 1,
     v_violation_type = Some ''face_missing'', v_timestamp = Some 1300, v_details = None\<rparr>"

definition store_S2 :: db where
  "store_S2 = \<lparr>students = [], exam_templates = [], exams = [exam_E1, exam_E2, exam_E3],
     violations = [violation_V1]\<rparr>"

definition violation_N2 :: violation where
  "violation_N2 = \<lparr>v_id = 9, v_exam_id = Some 2, v_student_id = None,
     v_violation_type = Some ''phone_detected'', v_timestamp = Some 2100, v_details = None\<rparr>"

definition store_S0 :: db where
  "store_S0 = \<lparr>students = [], exam_templates = [], exams = [exam_E1], violations = []\<rparr>"

definition writes_W0 :: "store_write list" where
  "writes_W0 =
     [InsertViolation violation_N1,
      CreateExam exam_E2,
      InsertViolation violation_N2,
      InsertViolation (violation_V1\<lparr>v_student_id := Some 2\<rparr>),
      UpdateViolations (\<lambda>v. v_id v = 8) (\<lambda>v. v\<lparr>v_exam_id := Some 2\<rparr>),
      UpdateViolations (\<lambda>v. v_id v = 9) (\<lambda>v. v\<lparr>v_student_id := Some 5\<rparr>)]"

text \<open>A violation of a student who has no exam at all.\<close>

definition store_U :: db where
  "store_U = \<lparr>students = [], exam_templates = [], exams = [], violations = [violation_N1]\<rparr>"

text \<open>
  Exam A ran from 1000 to 4600 (one hour), exam B started at 8200 (two hours after A)
  and is still open; the violation is reported at 2800, half an hour into A.
\<close>

definition exam_A :: exam where
  "exam_A = \<lparr>e_id = 1, e_student_id = Some 1, e_status = Some completed,
     e_started_at = Some 1000, e_completed_at = Some 4600, e_created_at = Some 900,
     e_exam_template_id = None, e_subject_code = None\<rparr>"

definition exam_B :: exam where
  "exam_B = \<lparr>e_id = 2, e_student_id = Some 1, e_status = Some in_progress,
     e_started_at = Some 8200, e_completed_at = None, e_created_at = Some 8100,
     e_exam_template_id = None, e_subject_code = None\<rparr>"

definition violation_AB :: violation where
  "violation_AB = \<lparr>v_id = 20, v_exam_id = None, v_student_id = Some 1,
     v_violation_type = Some ''tab_switch'', v_timestamp = Some 2800, v_details = None\<rparr>"

definition store_AB :: db where
  "store_AB = \<lparr>students = [], exam_templates = [], exams = [exam_A, exam_B],
     violations = [violation_AB]\<rparr>"

text \<open>A violation of the student of exam A, reported at 7000, after A was completed.\<close>

definition violation_late :: violation where
  "violation_late = \<lparr>v_id = 21, v_exam_id = None, v_student_id = Some 1,
     v_violation_type = Some ''tab_switch'', v_timestamp = Some 7000, v_details = None\<rparr>"

text \<open>Exam E1 is owned by student 1; the violation names E1 and student 2.\<close>

definition violation_M :: violation where
  "violation_M = \<lparr>v_id = 30, v_exam_id = Some 1, v_student_id = Some 2,
     v_violation_type = Some ''tab_switch'', v_timestamp = Some 1300, v_details = None\<rparr>"

definition store_M :: db where
  "store_M = \<lparr>students = [], exam_templates = [], exams = [exam_E1, exam_E2],
     violations = [violation_V1, violation_M]\<rparr>"

text \<open>
  Student 1 with exam E1 and two violations that name E1: one of student 1, one of
  student 2.
\<close>

definition student_1 :: student where
  "student_1 = \<lparr>s_id = 1, s_name = Some ''Asha'', s_student_id = Some ''R-001''\<rparr>"

definition store_R :: db where
  "store_R = \<lparr>students = [student_1], exam_templates = [], exams = [exam_E1],
     violations = [violation_V1, violation_M]\<rparr>"

text \<open>
  Exam E1 of student 1, in progress since 1000, and three violations: one of student 1
  without an exam, reported at 1300; one of student 9, who has no exam; one that names
  E1 and student 2.
\<close>

definition violation_N9 :: violation where
  "violation_N9 = \<lparr>v_id = 9, v_exam_id = None, v_student_id = Some 9,
     v_violation_type = Some ''face_missing'', v_timestamp = Some 1500, v_details = None\<rparr>"

definition store_W :: db where
  "store_W = \<lparr>students = [], exam_templates = [], exams = [exam_E1],
     violations = [violation_N1, violation_N9, violation_M]\<rparr>"

text \<open>
  Exam E3 of student 1 was started at 3000 and abandoned; the violation of student 1
  was reported at 1300, before it started.
\<close>

definition store_E3 :: db where
  "store_E3 = \<lparr>students = [], exam_templates = [], exams = [exam_E3],
     violations = [violation_N1]\<rparr>"

section \<open>Properties of the linkage validator\<close>

lemma sql_eq_simps [simp]:
  "sql_eq (Some x) (Some y) = (x = y)"
  "sql_eq None b = False"
  "sql_eq a None = False"
  by (auto simp: sql_eq_def split: option.splits)

lemma exam_owner_matches:
  assumes "distinct (map e_id exs)"
  shows "exam_student_matches exs (Some x) (Some s) = (exam_owner exs x = Some s)"
  using assms
proof (induction exs)
  case Nil
  then show ?case by (simp add: exam_student_matches_def exam_owner_def)
next
  case (Cons e exs)
  have tl: "exam_student_matches exs (Some x) (Some s) = (exam_owner exs x = Some s)"
    using Cons by simp
  show ?case
  proof (cases "e_id e = x")
    case True
    then have "\<forall>e' \<in> set exs. e_id e' \<noteq> x"
      using Cons.prems by (metis distinct.simps(2) image_eqI list.simps(9) set_map)
    then show ?thesis
      using True by (cases "e_student_id e") (auto simp: exam_student_matches_def exam_owner_def)
  next
    case False
    then show ?thesis
      using tl by (auto simp: exam_student_matches_def exam_owner_def)
  qed
qed

lemma trigger_error:
  "validate_violation_exam_student_consistency exs NEW = Inl err \<Longrightarrow> err = LinkageMismatch"
  by (simp add: validate_violation_exam_student_consistency_def Let_def split: if_splits)

lemma before_row_trigger_error:
  "before_row_trigger trig exs NEW = Inl err \<Longrightarrow> err = LinkageMismatch"
  by (auto simp: before_row_trigger_def dest: trigger_error split: if_splits)

lemma trigger_keeps_id:
  "validate_violation_exam_student_consistency exs NEW = Inr row \<Longrightarrow> v_id row = v_id NEW"
  by (auto simp: validate_violation_exam_student_consistency_def Let_def split: if_splits)

lemma update_rows_never_commits:
  assumes "v \<in> set todo" and "cond v"
    and "validate_violation_exam_student_consistency exs (upd v) = Inl LinkageMismatch"
  shows "\<exists>err. update_rows exs cond upd stored todo = Inl err"
  using assms(1)
proof (induction todo arbitrary: stored)
  case Nil
  then show ?case by simp
next
  case (Cons w ws)
  show ?case
  proof (cases "cond w")
    case False
    then have "v \<in> set ws"
      using Cons.prems assms(2) by auto
    then show ?thesis
      using Cons.IH [of "stored @ [w]"] False by simp
  next
    case True
    show ?thesis
    proof (cases "validate_violation_exam_student_consistency exs (upd w)")
      case (Inl err)
      then show ?thesis using True by simp
    next
      case (Inr w')
      then have "v \<in> set ws"
        using Cons.prems assms(3) by auto
      then have "\<exists>err. update_rows exs cond upd (stored @ [w']) ws = Inl err"
        by (rule Cons.IH)
      then show ?thesis
        using True Inr by auto
    qed
  qed
qed

lemma update_rows_rejects:
  assumes "v \<in> set todo" and "cond v"
    and "validate_violation_exam_student_consistency exs (upd v) = Inl LinkageMismatch"
    and "distinct (map v_id (stored @ todo))"
    and "\<forall>w \<in> set todo. cond w \<longrightarrow> v_id (upd w) = v_id w"
  shows "update_rows exs cond upd stored todo = Inl LinkageMismatch"
  using assms(1,4,5)
proof (induction todo arbitrary: stored)
  case Nil
  then show ?case by simp
next
  case (Cons w ws)
  have keep: "\<forall>u \<in> set ws. cond u \<longrightarrow> v_id (upd u) = v_id u"
    using Cons.prems(3) by simp
  show ?case
  proof (cases "cond w")
    case False
    then have "v \<in> set ws"
      using Cons.prems(1) assms(2) by auto
    moreover have "distinct (map v_id ((stored @ [w]) @ ws))"
      using Cons.prems(2) by simp
    ultimately have "update_rows exs cond upd (stored @ [w]) ws = Inl LinkageMismatch"
      using keep Cons.IH [of "stored @ [w]"] by simp
    then show ?thesis
      using False by simp
  next
    case True
    show ?thesis
    proof (cases "validate_violation_exam_student_consistency exs (upd w)")
      case (Inl err)
      then show ?thesis
        using True trigger_error [OF Inl] by simp
    next
      case (Inr w')
      then have mem: "v \<in> set ws"
        using Cons.prems(1) assms(3) by auto
      have id: "v_id w' = v_id w"
        using trigger_keeps_id [OF Inr] Cons.prems(3) True by simp
      then have free: "v_id w' \<notin> set (map v_id (stored @ ws))"
        using Cons.prems(2) by auto
      have "distinct (map v_id ((stored @ [w']) @ ws))"
        using Cons.prems(2) id by simp
      then have "update_rows exs cond upd (stored @ [w']) ws = Inl LinkageMismatch"
        using mem keep Cons.IH [of "stored @ [w']"] by simp
      then show ?thesis
        using True Inr free by simp
    qed
  qed
qed

lemma trigger_mismatch:
  assumes "distinct (map e_id exs)"
    and "v_exam_id NEW = Some x" and "v_student_id NEW = Some s"
    and "exam_owner exs x \<noteq> Some s"
  shows "validate_violation_exam_student_consistency exs NEW = Inl LinkageMismatch"
  using assms exam_owner_matches [OF assms(1), of x s]
  by (simp add: validate_violation_exam_student_consistency_def)

text \<open>
  Claim C2. A violation write that names both an exam and a student, where the exam is
  not owned by that student (or does not exist), is rejected: the trigger raises
  \<open>LinkageMismatch\<close>, an insert of the row fails with that error, and an update that
  would produce the row in some row of the table never commits. The store after the
  rejected write is the store before it; the explicit pair is never rewritten into a
  consistent one. The error of the update is \<open>LinkageMismatch\<close> whenever the update
  leaves the ids of the rows it selects as they are (the table's ids being unique); an
  update that changes ids can fail on the key in a row it visits before.
\<close>

theorem linkage_mismatch_rejected:
  assumes "distinct (map e_id (exams d))"
    and "v_exam_id NEW = Some x" and "v_student_id NEW = Some s"
    and "exam_owner (exams d) x \<noteq> Some s"
  shows "validate_violation_exam_student_consistency (exams d) NEW = Inl LinkageMismatch
       \<and> write_result d (InsertViolation NEW) = Inl LinkageMismatch
       \<and> commit_write d (InsertViolation NEW) = d
       \<and> (\<forall>cond upd. (\<exists>v \<in> set (violations d). cond v \<and> upd v = NEW) \<longrightarrow>
             (\<exists>err. write_result d (UpdateViolations cond upd) = Inl err)
           \<and> commit_write d (UpdateViolations cond upd) = d
           \<and> (distinct (map v_id (violations d))
                \<and> (\<forall>w \<in> set (violations d). cond w \<longrightarrow> v_id (upd w) = v_id w) \<longrightarrow>
              write_result d (UpdateViolations cond upd) = Inl LinkageMismatch))"
proof -
  have raise: "validate_violation_exam_student_consistency (exams d) NEW = Inl LinkageMismatch"
    using assms by (rule trigger_mismatch)
  have ins: "write_result d (InsertViolation NEW) = Inl LinkageMismatch"
    using raise by (simp add: insert_violation_def)
  have upd: "(\<exists>err. write_result d (UpdateViolations cond upd) = Inl err)
      \<and> commit_write d (UpdateViolations cond upd) = d
      \<and> (distinct (map v_id (violations d))
           \<and> (\<forall>w \<in> set (violations d). cond w \<longrightarrow> v_id (upd w) = v_id w) \<longrightarrow>
         write_result d (UpdateViolations cond upd) = Inl LinkageMismatch)"
    if "\<exists>v \<in> set (violations d). cond v \<and> upd v = NEW" for cond upd
  proof -
    from that obtain v where v: "v \<in> set (violations d)" "cond v" "upd v = NEW"
      by blast
    have trg: "validate_violation_exam_student_consistency (exams d) (upd v) = Inl LinkageMismatch"
      using raise v(3) by simp
    obtain err where err: "update_rows (exams d) cond upd [] (violations d) = Inl err"
      using update_rows_never_commits [where cond = cond and upd = upd and stored = "[]",
          OF v(1,2) trg] by blast
    then have rej: "write_result d (UpdateViolations cond upd) = Inl err"
      by (simp add: update_violations_def)
    then have same: "commit_write d (UpdateViolations cond upd) = d"
      by (simp add: commit_write_def)
    have "write_result d (UpdateViolations cond upd) = Inl LinkageMismatch"
      if "distinct (map v_id (violations d))"
        and "\<forall>w \<in> set (violations d). cond w \<longrightarrow> v_id (upd w) = v_id w"
    proof -
      have "update_rows (exams d) cond upd [] (violations d) = Inl LinkageMismatch"
        using update_rows_rejects [where cond = cond and upd = upd and stored = "[]",
            OF v(1,2) trg] that by simp
      then show ?thesis
        by (simp add: update_violations_def)
    qed
    then show ?thesis
      using rej same by blast
  qed
  show ?thesis
    using raise ins upd by (simp add: commit_write_def)
qed

theorem linkage_mismatch_rejected_witness:
  "write_result store_K (InsertViolation (violation_V2\<lparr>v_student_id := Some 2\<rparr>))
     = Inl LinkageMismatch
   \<and> commit_write store_K (InsertViolation (violation_V2\<lparr>v_student_id := Some 2\<rparr>))
     = store_K
   \<and> write_result store_K
       (UpdateViolations (\<lambda>v. v_timestamp v \<noteq> None) (\<lambda>v. if v_id v = 8 then v\<lparr>v_student_id := Some 2\<rparr> else v))
     = Inl LinkageMismatch
   \<and> commit_write store_K
       (UpdateViolations (\<lambda>v. v_timestamp v \<noteq> None) (\<lambda>v. if v_id v = 8 then v\<lparr>v_student_id := Some 2\<rparr> else v))
     = store_K"
proof -
  let ?NEW = "violation_V2\<lparr>v_student_id := Some 2\<rparr>"
  let ?cond = "\<lambda>v. v_timestamp v \<noteq> None"
  let ?upd = "\<lambda>v. if v_id v = 8 then v\<lparr>v_student_id := Some 2\<rparr> else v"
  have h1: "distinct (map e_id (exams store_K))"
    by (simp add: store_K_def)
  have h2: "v_exam_id ?NEW = Some 1"
    by (simp add: violation_V2_def)
  have h3: "v_student_id ?NEW = Some 2"
    by simp
  have h4: "exam_owner (exams store_K) 1 \<noteq> Some 2"
    by (simp add: store_K_def exam_E1_def exam_owner_def)
  have h5: "\<exists>v \<in> set (violations store_K). ?cond v \<and> ?upd v = ?NEW"
    by (simp add: store_K_def violation_V2_def)
  have h6: "distinct (map v_id (violations store_K))
      \<and> (\<forall>w \<in> set (violations store_K). ?cond w \<longrightarrow> v_id (?upd w) = v_id w)"
    by (simp add: store_K_def violation_V1_def violation_V2_def)
  note inst = linkage_mismatch_rejected [OF h1 h2 h3 h4]
  have ins: "write_result store_K (InsertViolation ?NEW) = Inl LinkageMismatch"
    using inst by (rule conjunct1 [OF conjunct2])
  have com: "commit_write store_K (InsertViolation ?NEW) = store_K"
    using inst by (rule conjunct1 [OF conjunct2 [OF conjunct2]])
  have every: "\<forall>cond upd. (\<exists>v \<in> set (violations store_K). cond v \<and> upd v = ?NEW) \<longrightarrow>
      (\<exists>err. write_result store_K (UpdateViolations cond upd) = Inl err)
      \<and> commit_write store_K (UpdateViolations cond upd) = store_K
      \<and> (distinct (map v_id (violations store_K))
           \<and> (\<forall>w \<in> set (violations store_K). cond w \<longrightarrow> v_id (upd w) = v_id w) \<longrightarrow>
         write_result store_K (UpdateViolations cond upd) = Inl LinkageMismatch)"
    using inst by (rule conjunct2 [OF conjunct2 [OF conjunct2]])
  note one = every [rule_format, of ?cond ?upd, OF h5]
  have same: "commit_write store_K (UpdateViolations ?cond ?upd) = store_K"
    using one by (rule conjunct1 [OF conjunct2])
  have "distinct (map v_id (violations store_K))
      \<and> (\<forall>w \<in> set (violations store_K). ?cond w \<longrightarrow> v_id (?upd w) = v_id w) \<longrightarrow>
    write_result store_K (UpdateViolations ?cond ?upd) = Inl LinkageMismatch"
    using one by (rule conjunct2 [OF conjunct2])
  then have rej: "write_result store_K (UpdateViolations ?cond ?upd) = Inl LinkageMismatch"
    using h6 by (rule mp)
  show ?thesis
    using ins com rej same by (intro conjI)
qed

text \<open>
  The key is checked row by row: an update that moves row 7 to id 8 and gives row 8 a
  student that does not own its exam fails on the key in row 7, before row 8 reaches the
  trigger.
\<close>

lemma update_fails_on_key_first:
  "write_result store_K
     (UpdateViolations (\<lambda>v. True)
        (\<lambda>v. if v_id v = 7 then v\<lparr>v_id := 8\<rparr> else v\<lparr>v_student_id := Some 2\<rparr>))
     = Inl UniqueViolation"
  by (simp add: update_violations_def store_K_def violation_V1_def violation_V2_def
      exam_E1_def validate_violation_exam_student_consistency_def exam_student_matches_def)

section \<open>Ordered selection\<close>

lemma limit1_sort_key_None [simp]: "(limit1 (sort_key k xs) = None) = (xs = [])"
proof (cases "sort_key k xs")
  case Nil
  then have "xs = []"
    by (metis length_0_conv length_sort)
  then show ?thesis
    by (simp add: limit1_def)
next
  case (Cons a rest)
  then have "xs \<noteq> []"
    by auto
  then show ?thesis
    using Cons by (simp add: limit1_def)
qed

lemma limit1_sort_key_Some:
  assumes "limit1 (sort_key k xs) = Some e"
  shows "e \<in> set xs" and "\<forall>c \<in> set xs. k e \<le> k c"
proof -
  from assms obtain rest where srt: "sort_key k xs = e # rest"
    by (auto simp: limit1_def split: list.splits)
  have "set (sort_key k xs) = set xs"
    by simp
  with srt have mem: "set xs = insert e (set rest)"
    by simp
  then show "e \<in> set xs"
    by simp
  have "sorted (map k (sort_key k xs))"
    by (rule sorted_sort_key)
  with srt have "\<forall>c \<in> set rest. k e \<le> k c"
    by simp
  with mem show "\<forall>c \<in> set xs. k e \<le> k c"
    by simp
qed

lemma desc_nulls_last_less:
  "(desc_nulls_last a < desc_nulls_last b) = started_desc_nulls_last a b"
  by (cases a; cases b) (simp_all add: desc_nulls_last_def started_desc_nulls_last_def)

lemma desc_nulls_last_eq: "(desc_nulls_last a = desc_nulls_last b) = (a = b)"
  by (cases a; cases b) (simp_all add: desc_nulls_last_def)

lemma desc_nulls_first_less: "(desc_nulls_first a < desc_nulls_first b) = created_desc a b"
  by (cases a; cases b) (simp_all add: desc_nulls_first_def created_desc_def)

lemma recent_key_less:
  "((desc_nulls_last (e_started_at c), desc_nulls_first (e_created_at c))
      < (desc_nulls_last (e_started_at e), desc_nulls_first (e_created_at e)))
   = more_recent c e"
proof -
  have "(desc_nulls_last (e_started_at c) \<le> desc_nulls_last (e_started_at e))
      = (started_desc_nulls_last (e_started_at c) (e_started_at e) \<or> e_started_at c = e_started_at e)"
    unfolding le_less desc_nulls_last_less desc_nulls_last_eq ..
  then show ?thesis
    unfolding less_prod_simp desc_nulls_last_less desc_nulls_first_less more_recent_def
    by (auto simp: started_desc_nulls_last_def split: option.splits)
qed

lemma select_recent_exam_None:
  "(select_recent_exam exs (Some s) = None)
     = (\<not> (\<exists>e \<in> set exs. e_student_id e = Some s \<and> active_or_completed e))"
proof -
  have "(filter (\<lambda>e. sql_eq (e_student_id e) (Some s) \<and> active_or_completed e) exs = [])
      = (\<not> (\<exists>e \<in> set exs. e_student_id e = Some s \<and> active_or_completed e))"
    unfolding filter_empty_conv
    by (metis option.exhaust sql_eq_simps(1) sql_eq_simps(2))
  then show ?thesis
    by (simp add: select_recent_exam_def)
qed

lemma select_recent_exam_Some:
  assumes "select_recent_exam exs (Some s) = Some x"
  shows "\<exists>e \<in> set exs. e_id e = x \<and> e_student_id e = Some s \<and> active_or_completed e \<and>
           (\<forall>c \<in> set exs. e_student_id c = Some s \<and> active_or_completed c \<longrightarrow> \<not> more_recent c e)"
proof -
  let ?k = "\<lambda>e. (desc_nulls_last (e_started_at e), desc_nulls_first (e_created_at e))"
  let ?cands = "filter (\<lambda>e. sql_eq (e_student_id e) (Some s) \<and> active_or_completed e) exs"
  from assms obtain e where pick: "limit1 (sort_key ?k ?cands) = Some e" and x: "e_id e = x"
    by (auto simp: select_recent_exam_def)
  have mem: "e \<in> set ?cands" and least: "\<forall>c \<in> set ?cands. ?k e \<le> ?k c"
    using limit1_sort_key_Some [OF pick] by blast+
  have cand: "e \<in> set exs" "e_student_id e = Some s" "active_or_completed e"
    using mem by (cases "e_student_id e"; simp)+
  have "\<not> more_recent c e"
    if "c \<in> set exs" "e_student_id c = Some s" "active_or_completed c" for c
  proof -
    have "c \<in> set ?cands"
      using that by simp
    then have "?k e \<le> ?k c"
      using least by blast
    then have "\<not> ?k c < ?k e"
      by (rule leD)
    then show ?thesis
      unfolding recent_key_less .
  qed
  then show ?thesis
    using cand x by blast
qed

lemma trigger_missing_exam:
  assumes "v_exam_id NEW = None" and "v_student_id NEW = Some s"
  shows "validate_violation_exam_student_consistency exs NEW
           = Inr (NEW\<lparr>v_exam_id := select_recent_exam exs (Some s)\<rparr>)"
  using assms by (simp add: validate_violation_exam_student_consistency_def)

text \<open>
  Claim C6. A violation write without an exam but with a student is never rejected by
  the validator: the trigger returns the row with \<open>exam_id\<close> set by
  \<open>select_recent_exam\<close>, and an insert of a row with a fresh id commits exactly that
  row. The value chosen is the id of an exam of that student with status in_progress or
  completed such that no other such exam comes before it under "startedAt descending,
  nulls last, then createdAt descending"; it is NULL exactly when the student has no
  exam with one of these two statuses.
\<close>

theorem missing_exam_resolved_softly:
  assumes "v_exam_id NEW = None" and "v_student_id NEW = Some s"
  shows "validate_violation_exam_student_consistency (exams d) NEW
           = Inr (NEW\<lparr>v_exam_id := select_recent_exam (exams d) (Some s)\<rparr>)
       \<and> (v_id NEW \<notin> set (map v_id (violations d)) \<longrightarrow>
            write_result d (InsertViolation NEW)
              = Inr (d\<lparr>violations := violations d
                         @ [NEW\<lparr>v_exam_id := select_recent_exam (exams d) (Some s)\<rparr>]\<rparr>))
       \<and> (case select_recent_exam (exams d) (Some s) of
            None \<Rightarrow> \<not> (\<exists>e \<in> set (exams d). e_student_id e = Some s \<and> active_or_completed e)
          | Some x \<Rightarrow>
              \<exists>e \<in> set (exams d). e_id e = x \<and> e_student_id e = Some s \<and> active_or_completed e \<and>
                (\<forall>c \<in> set (exams d).
                   e_student_id c = Some s \<and> active_or_completed c \<longrightarrow> \<not> more_recent c e))"
proof -
  have trg: "validate_violation_exam_student_consistency (exams d) NEW
      = Inr (NEW\<lparr>v_exam_id := select_recent_exam (exams d) (Some s)\<rparr>)"
    using assms by (rule trigger_missing_exam)
  have ins: "write_result d (InsertViolation NEW)
      = Inr (d\<lparr>violations := violations d
                 @ [NEW\<lparr>v_exam_id := select_recent_exam (exams d) (Some s)\<rparr>]\<rparr>)"
    if "v_id NEW \<notin> set (map v_id (violations d))"
    using trg that by (simp add: insert_violation_def)
  have pick: "case select_recent_exam (exams d) (Some s) of
      None \<Rightarrow> \<not> (\<exists>e \<in> set (exams d). e_student_id e = Some s \<and> active_or_completed e)
    | Some x \<Rightarrow>
        \<exists>e \<in> set (exams d). e_id e = x \<and> e_student_id e = Some s \<and> active_or_completed e \<and>
          (\<forall>c \<in> set (exams d).
             e_student_id c = Some s \<and> active_or_completed c \<longrightarrow> \<not> more_recent c e)"
  proof (cases "select_recent_exam (exams d) (Some s)")
    case None
    then show ?thesis
      using select_recent_exam_None [of "exams d" s] by simp
  next
    case (Some x)
    then show ?thesis
      using select_recent_exam_Some [OF Some] by simp
  qed
  show ?thesis
    using trg ins pick by (intro conjI impI)
qed

theorem missing_exam_resolved_softly_witness:
  "write_result store_S2 (InsertViolation violation_N1)
     = Inr (store_S2\<lparr>violations := [violation_V1, violation_N1\<lparr>v_exam_id := Some 2\<rparr>]\<rparr>)
   \<and> validate_violation_exam_student_consistency (exams store_S2)
       (violation_N1\<lparr>v_student_id := Some 9\<rparr>)
     = Inr (violation_N1\<lparr>v_student_id := Some 9\<rparr>)"
proof -
  have pick1: "select_recent_exam (exams store_S2) (Some 1) = Some 2"
    by (simp add: select_recent_exam_def store_S2_def exam_E1_def exam_E2_def exam_E3_def
        active_or_completed_def desc_nulls_last_def desc_nulls_first_def limit1_def)
  have pick9: "select_recent_exam (exams store_S2) (Some 9) = None"
    by (simp add: select_recent_exam_def store_S2_def exam_E1_def exam_E2_def exam_E3_def
        limit1_def)
  have h1: "v_exam_id violation_N1 = None" and h2: "v_student_id violation_N1 = Some 1"
    by (simp_all add: violation_N1_def)
  have fresh: "v_id violation_N1 \<notin> set (map v_id (violations store_S2))"
    by (simp add: violation_N1_def store_S2_def violation_V1_def)
  have "write_result store_S2 (InsertViolation violation_N1)
      = Inr (store_S2\<lparr>violations := violations store_S2
          @ [violation_N1\<lparr>v_exam_id := select_recent_exam (exams store_S2) (Some 1)\<rparr>]\<rparr>)"
    using missing_exam_resolved_softly [OF h1 h2, of store_S2] fresh by simp
  then have ins: "write_result store_S2 (InsertViolation violation_N1)
      = Inr (store_S2\<lparr>violations := [violation_V1, violation_N1\<lparr>v_exam_id := Some 2\<rparr>]\<rparr>)"
    unfolding pick1 by (simp add: store_S2_def)
  have h3: "v_exam_id (violation_N1\<lparr>v_student_id := Some 9\<rparr>) = None"
    and h4: "v_student_id (violation_N1\<lparr>v_student_id := Some 9\<rparr>) = Some 9"
    by (simp_all add: violation_N1_def)
  have "validate_violation_exam_student_consistency (exams store_S2)
        (violation_N1\<lparr>v_student_id := Some 9\<rparr>)
      = Inr (violation_N1\<lparr>v_student_id := Some 9,
          v_exam_id := select_recent_exam (exams store_S2) (Some 9)\<rparr>)"
    using missing_exam_resolved_softly [OF h3 h4, of store_S2] by simp
  then have soft: "validate_violation_exam_student_consistency (exams store_S2)
        (violation_N1\<lparr>v_student_id := Some 9\<rparr>)
      = Inr (violation_N1\<lparr>v_student_id := Some 9\<rparr>)"
    unfolding pick9 by (simp add: violation_N1_def)
  show ?thesis
    using ins soft by (intro conjI)
qed

section \<open>Invariant I1 under writes\<close>

lemma select_exam_student_owner: "select_exam_student exs (Some x) = exam_owner exs x"
  by (induction exs) (simp_all add: select_exam_student_def exam_owner_def limit1_def)

lemma trigger_establishes_I1:
  assumes "distinct (map e_id exs)"
    and "validate_violation_exam_student_consistency exs NEW = Inr row"
  shows "I1 exs row"
proof (cases "v_exam_id NEW")
  case None
  note ex = None
  show ?thesis
  proof (cases "v_student_id NEW")
    case None
    then show ?thesis
      using ex assms(2) by (auto simp: validate_violation_exam_student_consistency_def I1_def)
  next
    case (Some s)
    have row: "row = NEW\<lparr>v_exam_id := select_recent_exam exs (Some s)\<rparr>"
      using trigger_missing_exam [OF ex Some, of exs] assms(2) by simp
    show ?thesis
    proof (cases "select_recent_exam exs (Some s)")
      case None
      then show ?thesis using row by (simp add: I1_def)
    next
      case (Some x)
      from select_recent_exam_Some [OF Some]
      obtain e where "e \<in> set exs" "e_id e = x" "e_student_id e = Some s"
        by blast
      then have "exam_student_matches exs (Some x) (Some s)"
        by (auto simp: exam_student_matches_def)
      then have "exam_owner exs x = Some s"
        using exam_owner_matches [OF assms(1)] by simp
      then show ?thesis
        using row Some \<open>v_student_id NEW = Some s\<close> by (simp add: I1_def)
    qed
  qed
next
  case (Some x)
  note ex = Some
  show ?thesis
  proof (cases "v_student_id NEW")
    case None
    then have "row = NEW\<lparr>v_student_id := exam_owner exs x\<rparr>"
      using ex assms(2)
      by (auto simp: validate_violation_exam_student_consistency_def select_exam_student_owner)
    then show ?thesis
      using ex by (simp add: I1_def split: option.splits)
  next
    case (Some s)
    then have "row = NEW \<and> exam_student_matches exs (Some x) (Some s)"
      using ex assms(2)
      by (auto simp: validate_violation_exam_student_consistency_def split: if_splits)
    then show ?thesis
      using ex Some exam_owner_matches [OF assms(1), of x s] by (simp add: I1_def)
  qed
qed

lemma update_rows_I1:
  assumes "distinct (map e_id exs)"
    and "update_rows exs cond upd stored todo = Inr vs'"
    and "\<forall>v \<in> set stored. I1 exs v" and "\<forall>v \<in> set todo. I1 exs v"
  shows "\<forall>v \<in> set vs'. I1 exs v"
  using assms(2,3,4)
proof (induction todo arbitrary: stored)
  case Nil
  then show ?case by simp
next
  case (Cons w ws)
  have tl: "\<forall>v \<in> set ws. I1 exs v" and hd: "I1 exs w"
    using Cons.prems(3) by simp_all
  show ?case
  proof (cases "cond w")
    case False
    then have run: "update_rows exs cond upd (stored @ [w]) ws = Inr vs'"
      using Cons.prems(1) by simp
    have "\<forall>v \<in> set (stored @ [w]). I1 exs v"
      using Cons.prems(2) hd by simp
    then show ?thesis
      by (rule Cons.IH [OF run _ tl])
  next
    case True
    show ?thesis
    proof (cases "validate_violation_exam_student_consistency exs (upd w)")
      case (Inl err)
      then show ?thesis
        using Cons.prems(1) True by simp
    next
      case (Inr w')
      have run: "update_rows exs cond upd (stored @ [w']) ws = Inr vs'"
      proof (cases "v_id w' \<in> set (map v_id (stored @ ws))")
        case True
        then show ?thesis
          using Cons.prems(1) \<open>cond w\<close> Inr by simp
      next
        case False
        then show ?thesis
          using Cons.prems(1) \<open>cond w\<close> Inr by simp
      qed
      have "I1 exs w'"
        using trigger_establishes_I1 [OF assms(1) Inr] .
      then have "\<forall>v \<in> set (stored @ [w']). I1 exs v"
        using Cons.prems(2) by simp
      then show ?thesis
        by (rule Cons.IH [OF run _ tl])
    qed
  qed
qed

lemma exam_owner_append:
  assumes "exam_owner exs x = Some s"
  shows "exam_owner (exs @ [e]) x = Some s"
  using assms
  by (induction exs) (auto simp: exam_owner_def split: if_splits)

lemma I1_append:
  assumes "I1 exs v"
  shows "I1 (exs @ [e]) v"
  using assms
  by (auto simp: I1_def exam_owner_append split: option.splits)

lemma commit_write_ok:
  assumes "store_ok d"
  shows "store_ok (commit_write d w)"
proof (cases w)
  case (CreateExam e)
  then show ?thesis
    using assms by (auto simp: commit_write_def create_exam_def store_ok_def I1_append)
next
  case (InsertViolation NEW)
  show ?thesis
  proof (cases "validate_violation_exam_student_consistency (exams d) NEW")
    case (Inl err)
    then show ?thesis
      using assms InsertViolation by (simp add: commit_write_def insert_violation_def)
  next
    case (Inr row)
    have "I1 (exams d) row"
      using trigger_establishes_I1 [OF _ Inr] assms by (simp add: store_ok_def)
    then show ?thesis
      using assms InsertViolation Inr
      by (auto simp: commit_write_def insert_violation_def store_ok_def)
  qed
next
  case (UpdateViolations cond upd)
  show ?thesis
  proof (cases "update_rows (exams d) cond upd [] (violations d)")
    case (Inl err)
    then show ?thesis
      using assms UpdateViolations by (simp add: commit_write_def update_violations_def)
  next
    case (Inr vs')
    have "\<forall>v \<in> set vs'. I1 (exams d) v"
      using update_rows_I1 [of "exams d" cond upd "[]" "violations d" vs'] Inr assms
      by (simp add: store_ok_def)
    then show ?thesis
      using assms UpdateViolations Inr
      by (auto simp: commit_write_def update_violations_def store_ok_def)
  qed
qed

lemma commit_all_ok: "store_ok d \<Longrightarrow> store_ok (commit_all d ws)"
  by (induction ws arbitrary: d) (simp_all add: commit_write_ok)

text \<open>
  Claim C1. Every row the trigger lets through satisfies I1: when the returned row has
  both \<open>exam_id\<close> and \<open>student_id\<close>, the exam it names is owned by the student it
  names. Hence, starting from a store whose exam ids are unique and whose violations
  satisfy I1 (an empty violations table, for one), every sequence of exam creations,
  violation inserts and violation updates, each either committed or rejected, leaves a
  store in which every violation satisfies I1.
\<close>

theorem I1_after_every_write_sequence:
  assumes "distinct (map e_id (exams d))"
    and "\<forall>v \<in> set (violations d). I1 (exams d) v"
  shows "(\<forall>NEW row. validate_violation_exam_student_consistency (exams d) NEW = Inr row
            \<longrightarrow> I1 (exams d) row)
       \<and> (\<forall>v \<in> set (violations (commit_all d ws)). I1 (exams (commit_all d ws)) v)"
proof -
  have "store_ok d"
    using assms by (simp add: store_ok_def)
  then have "store_ok (commit_all d ws)"
    by (rule commit_all_ok)
  then have seq: "\<forall>v \<in> set (violations (commit_all d ws)). I1 (exams (commit_all d ws)) v"
    by (simp add: store_ok_def)
  have "I1 (exams d) row"
    if "validate_violation_exam_student_consistency (exams d) NEW = Inr row" for NEW row
    using trigger_establishes_I1 [OF assms(1) that] .
  then show ?thesis
    using seq by blast
qed

lemma commit_all_W0:
  "commit_all store_S0 writes_W0
     = \<lparr>students = [], exam_templates = [], exams = [exam_E1, exam_E2],
        violations = [violation_N1\<lparr>v_exam_id := Some 2\<rparr>, violation_N2\<lparr>v_student_id := Some 1\<rparr>]\<rparr>"
  by (simp add: store_S0_def writes_W0_def commit_write_def insert_violation_def create_exam_def
      update_violations_def before_row_trigger_def
      validate_violation_exam_student_consistency_def exam_student_matches_def
      select_exam_student_def select_recent_exam_def active_or_completed_def limit1_def
      desc_nulls_last_def desc_nulls_first_def
      exam_E1_def exam_E2_def violation_N1_def violation_N2_def violation_V1_def)

theorem I1_after_every_write_sequence_witness:
  "violations (commit_all store_S0 writes_W0)
     = [violation_N1\<lparr>v_exam_id := Some 2\<rparr>, violation_N2\<lparr>v_student_id := Some 1\<rparr>]
   \<and> I1 (exams (commit_all store_S0 writes_W0)) (violation_N1\<lparr>v_exam_id := Some 2\<rparr>)
   \<and> I1 (exams (commit_all store_S0 writes_W0)) (violation_N2\<lparr>v_student_id := Some 1\<rparr>)"
proof -
  have h1: "distinct (map e_id (exams store_S0))"
    by (simp add: store_S0_def)
  have h2: "\<forall>v \<in> set (violations store_S0). I1 (exams store_S0) v"
    by (simp add: store_S0_def)
  have rows: "violations (commit_all store_S0 writes_W0)
      = [violation_N1\<lparr>v_exam_id := Some 2\<rparr>, violation_N2\<lparr>v_student_id := Some 1\<rparr>]"
    by (simp add: commit_all_W0)
  have "\<forall>v \<in> set (violations (commit_all store_S0 writes_W0)).
      I1 (exams (commit_all store_S0 writes_W0)) v"
    using I1_after_every_write_sequence [OF h1 h2, of writes_W0] by (rule conjunct2)
  then have "\<forall>v \<in> set [violation_N1\<lparr>v_exam_id := Some 2\<rparr>, violation_N2\<lparr>v_student_id := Some 1\<rparr>].
      I1 (exams (commit_all store_S0 writes_W0)) v"
    unfolding rows .
  then have "I1 (exams (commit_all store_S0 writes_W0)) (violation_N1\<lparr>v_exam_id := Some 2\<rparr>)"
    and "I1 (exams (commit_all store_S0 writes_W0)) (violation_N2\<lparr>v_student_id := Some 1\<rparr>)"
    by simp_all
  then show ?thesis
    using rows by (intro conjI)
qed

section \<open>The loops of the reconciliation job\<close>

lemma key_unique:
  assumes "distinct (map k xs)" and "a \<in> set xs" and "b \<in> set xs" and "k a = k b"
  shows "a = b"
  using assms by (meson distinct_map inj_onD)

lemma update_statement_all_pass:
  assumes "\<And>v. v \<in> set vs \<Longrightarrow> cond v \<Longrightarrow> before_row_trigger trig exs (upd v) = Inr (g v)"
  shows "update_statement trig exs cond upd vs
           = Inr (map (\<lambda>v. if cond v then g v else v) vs, length (filter cond vs))"
  using assms by (induction vs) simp_all

lemma update_single_row:
  assumes ids: "distinct (map v_id vs)" and mem: "r \<in> set vs"
    and only: "\<And>v. v \<in> set vs \<Longrightarrow> cond v = (v = r)"
    and pass: "before_row_trigger trig exs (upd r) = Inr (g r)"
  shows "\<exists>n > 0. update_statement trig exs cond upd vs
           = Inr (map (\<lambda>v. if v = r then g r else v) vs, n)"
proof -
  have "update_statement trig exs cond upd vs
      = Inr (map (\<lambda>v. if cond v then g v else v) vs, length (filter cond vs))"
    using only pass by (intro update_statement_all_pass) simp
  moreover have "map (\<lambda>v. if cond v then g v else v) vs = map (\<lambda>v. if v = r then g r else v) vs"
    using only by (intro map_cong) auto
  moreover have "r \<in> set (filter cond vs)"
    using mem only by simp
  then have "length (filter cond vs) > 0"
    by (rule length_pos_if_in_set)
  ultimately show ?thesis
    by simp
qed

lemma visited_rows_compose:
  assumes ids: "distinct (map v_id vs)" and mem: "r \<in> set vs"
    and fresh: "r \<notin> set rest" and sub: "set rest \<subseteq> set vs"
    and keep: "v_id (g r) = v_id r"
  shows "map (\<lambda>v. if v \<in> set rest then g v else v) (map (\<lambda>v. if v = r then g r else v) vs)
       = map (\<lambda>v. if v \<in> set (r # rest) then g v else v) vs"
proof -
  have "g r \<notin> set rest"
  proof
    assume in_rest: "g r \<in> set rest"
    then have "g r \<in> set vs"
      using sub by blast
    then have "g r = r"
      using key_unique [OF ids _ mem keep] by simp
    then show False
      using in_rest fresh by simp
  qed
  then show ?thesis
    by (auto simp: comp_def)
qed

lemma ids_after_row:
  assumes "v_id (g r) = v_id r"
  shows "map v_id (map (\<lambda>v. if v = r then g r else v) vs) = map v_id vs"
  using assms by (induction vs) simp_all

lemma rest_after_row:
  assumes "set (r # rest) \<subseteq> set vs" and "distinct (r # rest)"
  shows "set rest \<subseteq> set (map (\<lambda>v. if v = r then g r else v) vs)"
proof
  fix w assume w: "w \<in> set rest"
  then have "w \<in> set vs" and "w \<noteq> r"
    using assms by auto
  then show "w \<in> set (map (\<lambda>v. if v = r then g r else v) vs)"
    by (auto simp: image_iff)
qed

subsection \<open>Backfill\<close>

lemma select_backfill_exam_None:
  "(select_backfill_exam now exs v = None) = (\<not> (\<exists>e \<in> set exs. backfill_candidate now exs v e))"
  by (simp add: select_backfill_exam_def filter_empty_conv)

lemma select_backfill_exam_Some:
  assumes "select_backfill_exam now exs v = Some x"
  shows "\<exists>e \<in> set exs. e_id e = x \<and> backfill_candidate now exs v e \<and>
           (\<forall>c \<in> set exs. backfill_candidate now exs v c \<longrightarrow>
              (backfill_rank now v e, desc_nulls_last (e_started_at e))
                \<le> (backfill_rank now v c, desc_nulls_last (e_started_at c)))"
proof -
  let ?k = "\<lambda>e. (backfill_rank now v e, desc_nulls_last (e_started_at e))"
  let ?cands = "filter (backfill_candidate now exs v) exs"
  from assms obtain e where pick: "limit1 (sort_key ?k ?cands) = Some e" and x: "e_id e = x"
    by (auto simp: select_backfill_exam_def)
  have "e \<in> set ?cands" and "\<forall>c \<in> set ?cands. ?k e \<le> ?k c"
    using limit1_sort_key_Some [OF pick] by blast+
  then show ?thesis
    using x by auto
qed

lemma backfill_trigger_passes:
  assumes "v_exam_id v = None" and "v_student_id v = Some s"
  shows "before_row_trigger trig exs (v\<lparr>v_exam_id := select_backfill_exam now exs v\<rparr>)
           = Inr (backfilled trig now exs v)"
proof (cases "select_backfill_exam now exs v")
  case None
  have same: "v\<lparr>v_exam_id := select_backfill_exam now exs v\<rparr> = v"
    using None assms(1) by simp
  have "before_row_trigger trig exs v = Inr (backfilled trig now exs v)"
  proof (cases trig)
    case True
    then show ?thesis
      using None assms(2) trigger_missing_exam [OF assms, of exs]
      by (simp add: before_row_trigger_def backfilled_def)
  next
    case False
    then show ?thesis
      using None assms(1) by (simp add: before_row_trigger_def backfilled_def)
  qed
  then show ?thesis
    unfolding same .
next
  case (Some x)
  from select_backfill_exam_Some [OF Some]
  obtain e where "e \<in> set exs" "e_id e = x" "backfill_candidate now exs v e"
    by blast
  then have "exam_student_matches exs (Some x) (Some s)"
    using assms(2) by (auto simp: exam_student_matches_def backfill_candidate_def)
  then show ?thesis
    using Some assms(2)
    by (simp add: before_row_trigger_def backfilled_def
        validate_violation_exam_student_consistency_def)
qed

lemma backfill_loop_result:
  assumes "distinct (map v_id vs)" and "distinct rs" and "set rs \<subseteq> set vs"
    and "\<forall>r \<in> set rs. needs_backfill r"
  shows "backfill_loop trig now exs rs (fixed, skipped, vs)
       = Inr (fixed + length rs, skipped,
              map (\<lambda>v. if v \<in> set rs then backfilled trig now exs v else v) vs)"
  using assms
proof (induction rs arbitrary: fixed vs)
  case Nil
  then show ?case by simp
next
  case (Cons r rest)
  let ?g = "backfilled trig now exs"
  let ?vs1 = "map (\<lambda>v. if v = r then ?g r else v) vs"
  have mem: "r \<in> set vs" and need: "v_exam_id r = None" "v_student_id r \<noteq> None"
    using Cons.prems by (auto simp: needs_backfill_def)
  from need(2) obtain s where s: "v_student_id r = Some s"
    by blast
  have keep: "v_id (?g r) = v_id r"
    by (simp add: backfilled_def)
  have only: "(v_id v = v_id r \<and> v_exam_id v = None) = (v = r)" if "v \<in> set vs" for v
    using key_unique [OF Cons.prems(1) that mem] need(1) by auto
  have "\<exists>n > 0. update_statement trig exs (\<lambda>v. v_id v = v_id r \<and> v_exam_id v = None)
        (\<lambda>v. v\<lparr>v_exam_id := select_backfill_exam now exs r\<rparr>) vs = Inr (?vs1, n)"
    using Cons.prems(1) mem only backfill_trigger_passes [OF need(1) s]
    by (rule update_single_row)
  then obtain n where n: "n > 0"
    and upd: "update_statement trig exs (\<lambda>v. v_id v = v_id r \<and> v_exam_id v = None)
        (\<lambda>v. v\<lparr>v_exam_id := select_backfill_exam now exs r\<rparr>) vs = Inr (?vs1, n)"
    by blast
  have step: "backfill_loop trig now exs (r # rest) (fixed, skipped, vs)
      = backfill_loop trig now exs rest (fixed + 1, skipped, ?vs1)"
    using upd n by simp
  have "map v_id ?vs1 = map v_id vs"
    using keep by (rule ids_after_row)
  then have ids1: "distinct (map v_id ?vs1)"
    using Cons.prems(1) by (simp only:)
  have sub1: "set rest \<subseteq> set ?vs1"
    using Cons.prems(2,3) by (intro rest_after_row) simp_all
  have "backfill_loop trig now exs rest (fixed + 1, skipped, ?vs1)
      = Inr (fixed + 1 + length rest, skipped,
             map (\<lambda>v. if v \<in> set rest then ?g v else v) ?vs1)"
    using Cons.prems(2,4) by (intro Cons.IH [OF ids1 _ sub1]) simp_all
  moreover have "map (\<lambda>v. if v \<in> set rest then ?g v else v) ?vs1
      = map (\<lambda>v. if v \<in> set (r # rest) then ?g v else v) vs"
    using Cons.prems(1) mem _ _ keep
    by (rule visited_rows_compose) (use Cons.prems(2,3) in auto)
  ultimately show ?case
    using step by simp
qed

lemma backfill_pass_result:
  assumes "distinct (map v_id vs)"
  shows "backfill_pass trig now exs (fixed, skipped, vs)
       = Inr (fixed + length (filter needs_backfill vs), skipped,
              map (\<lambda>v. if needs_backfill v then backfilled trig now exs v else v) vs)"
proof -
  let ?rs = "backfill_cursor vs"
  have cur: "?rs = sort_key (\<lambda>v. desc_nulls_first (v_timestamp v)) (filter needs_backfill vs)"
    unfolding backfill_cursor_def needs_backfill_def ..
  have dv: "distinct vs"
    using assms by (simp add: distinct_map)
  have set_rs: "set ?rs = {v \<in> set vs. needs_backfill v}"
    unfolding cur by simp
  have "backfill_loop trig now exs ?rs (fixed, skipped, vs)
      = Inr (fixed + length ?rs, skipped,
             map (\<lambda>v. if v \<in> set ?rs then backfilled trig now exs v else v) vs)"
    using assms dv set_rs by (intro backfill_loop_result) (auto simp: cur)
  moreover have "length ?rs = length (filter needs_backfill vs)"
    unfolding cur by simp
  moreover have "map (\<lambda>v. if v \<in> set ?rs then backfilled trig now exs v else v) vs
      = map (\<lambda>v. if needs_backfill v then backfilled trig now exs v else v) vs"
    using set_rs by (intro map_cong) auto
  ultimately show ?thesis
    by (simp add: backfill_pass_def)
qed

subsection \<open>Repair\<close>

lemma select_exam_student_matches:
  assumes "select_exam_student exs (Some x) = Some s"
  shows "exam_student_matches exs (Some x) (Some s)"
  using assms
  by (induction exs)
    (auto simp: select_exam_student_def exam_student_matches_def limit1_def split: if_splits)

lemma repair_trigger_passes:
  assumes "v_exam_id v = Some x"
  shows "before_row_trigger trig exs (v\<lparr>v_student_id := select_exam_student exs (v_exam_id v)\<rparr>)
           = Inr (repaired exs v)"
proof (cases "select_exam_student exs (Some x)")
  case None
  then show ?thesis
    using assms
    by (simp add: before_row_trigger_def repaired_def
        validate_violation_exam_student_consistency_def)
next
  case (Some s)
  then have "exam_student_matches exs (Some x) (Some s)"
    by (rule select_exam_student_matches)
  then show ?thesis
    using assms Some
    by (simp add: before_row_trigger_def repaired_def
        validate_violation_exam_student_consistency_def)
qed

lemma repair_loop_result:
  assumes "distinct (map v_id vs)" and "distinct rs" and "set rs \<subseteq> set vs"
    and "\<forall>r \<in> set rs. v_exam_id r \<noteq> None"
  shows "repair_loop trig exs rs (fixed, skipped, vs)
       = Inr (fixed + length rs, skipped,
              map (\<lambda>v. if v \<in> set rs then repaired exs v else v) vs)"
  using assms
proof (induction rs arbitrary: fixed vs)
  case Nil
  then show ?case by simp
next
  case (Cons r rest)
  let ?g = "repaired exs"
  let ?vs1 = "map (\<lambda>v. if v = r then ?g r else v) vs"
  have mem: "r \<in> set vs"
    using Cons.prems by simp
  obtain x where x: "v_exam_id r = Some x"
    using Cons.prems(4) by auto
  have keep: "v_id (?g r) = v_id r"
    by (simp add: repaired_def)
  have only: "(v_id v = v_id r) = (v = r)" if "v \<in> set vs" for v
    using key_unique [OF Cons.prems(1) that mem] by auto
  have "\<exists>n > 0. update_statement trig exs (\<lambda>v. v_id v = v_id r)
        (\<lambda>v. v\<lparr>v_student_id := select_exam_student exs (v_exam_id r)\<rparr>) vs = Inr (?vs1, n)"
    using Cons.prems(1) mem only repair_trigger_passes [OF x]
    by (rule update_single_row)
  then obtain n where n: "n > 0"
    and upd: "update_statement trig exs (\<lambda>v. v_id v = v_id r)
        (\<lambda>v. v\<lparr>v_student_id := select_exam_student exs (v_exam_id r)\<rparr>) vs = Inr (?vs1, n)"
    by blast
  have step: "repair_loop trig exs (r # rest) (fixed, skipped, vs)
      = repair_loop trig exs rest (fixed + 1, skipped, ?vs1)"
    using upd n by simp
  have "map v_id ?vs1 = map v_id vs"
    using keep by (rule ids_after_row)
  then have ids1: "distinct (map v_id ?vs1)"
    using Cons.prems(1) by (simp only:)
  have sub1: "set rest \<subseteq> set ?vs1"
    using Cons.prems(2,3) by (intro rest_after_row) simp_all
  have "repair_loop trig exs rest (fixed + 1, skipped, ?vs1)
      = Inr (fixed + 1 + length rest, skipped,
             map (\<lambda>v. if v \<in> set rest then ?g v else v) ?vs1)"
    using Cons.prems(2,4) by (intro Cons.IH [OF ids1 _ sub1]) simp_all
  moreover have "map (\<lambda>v. if v \<in> set rest then ?g v else v) ?vs1
      = map (\<lambda>v. if v \<in> set (r # rest) then ?g v else v) vs"
    using Cons.prems(1) mem _ _ keep
    by (rule visited_rows_compose) (use Cons.prems(2,3) in auto)
  ultimately show ?case
    using step by simp
qed

lemma repair_pass_result:
  assumes "distinct (map v_id vs)"
  shows "repair_pass trig exs (fixed, skipped, vs)
       = Inr (fixed + length (filter (mismatched exs) vs), skipped,
              map (\<lambda>v. if mismatched exs v then repaired exs v else v) vs)"
proof -
  let ?rs = "repair_cursor exs vs"
  have cur: "?rs = filter (mismatched exs) vs"
    unfolding repair_cursor_def mismatched_def ..
  have dv: "distinct vs"
    using assms by (simp add: distinct_map)
  have "repair_loop trig exs ?rs (fixed, skipped, vs)
      = Inr (fixed + length ?rs, skipped,
             map (\<lambda>v. if v \<in> set ?rs then repaired exs v else v) vs)"
    using assms dv by (intro repair_loop_result) (auto simp: cur mismatched_def)
  moreover have "map (\<lambda>v. if v \<in> set ?rs then repaired exs v else v) vs
      = map (\<lambda>v. if mismatched exs v then repaired exs v else v) vs"
    unfolding cur by (intro map_cong) auto
  ultimately show ?thesis
    by (simp add: repair_pass_def cur)
qed

subsection \<open>The whole job\<close>

lemma backfilled_id [simp]: "v_id (backfilled trig now exs v) = v_id v"
  by (simp add: backfilled_def)

lemma repaired_id [simp]: "v_id (repaired exs v) = v_id v"
  by (simp add: repaired_def)

lemma ids_after_backfill:
  "map v_id (map (\<lambda>v. if needs_backfill v then backfilled trig now exs v else v) vs)
     = map v_id vs"
  by (induction vs) simp_all

lemma ids_after_repair:
  "map v_id (map (\<lambda>v. if mismatched exs v then repaired exs v else v) vs) = map v_id vs"
  by (induction vs) simp_all

lemma fix_violations_exam_links_result:
  assumes "distinct (map v_id (violations d))"
  shows "fix_violations_exam_links trig now d
       = Inr ((length (filter needs_backfill (violations d))
                + length (filter (mismatched (exams d))
                    (map (\<lambda>v. if needs_backfill v then backfilled trig now (exams d) v else v)
                      (violations d))),
               0),
              d\<lparr>violations :=
                  map (\<lambda>v. if mismatched (exams d) v then repaired (exams d) v else v)
                    (map (\<lambda>v. if needs_backfill v then backfilled trig now (exams d) v else v)
                      (violations d))\<rparr>)"
proof -
  let ?vs1 = "map (\<lambda>v. if needs_backfill v then backfilled trig now (exams d) v else v)
    (violations d)"
  have p1: "backfill_pass trig now (exams d) (0, 0, violations d)
      = Inr (0 + length (filter needs_backfill (violations d)), 0, ?vs1)"
    using assms by (rule backfill_pass_result)
  have "distinct (map v_id ?vs1)"
    using assms by (simp only: ids_after_backfill)
  then have p2: "repair_pass trig (exams d) (length (filter needs_backfill (violations d)), 0, ?vs1)
      = Inr (length (filter needs_backfill (violations d))
               + length (filter (mismatched (exams d)) ?vs1), 0,
             map (\<lambda>v. if mismatched (exams d) v then repaired (exams d) v else v) ?vs1)"
    by (rule repair_pass_result)
  show ?thesis
    using p1 p2 by (simp add: fix_violations_exam_links_def)
qed

lemma find_row_after_map:
  assumes "distinct (map v_id vs)" and "v \<in> set vs" and "\<And>w. v_id (g w) = v_id w"
  shows "find (\<lambda>w. v_id w = v_id v) (map g vs) = Some (g v)"
  using assms(1,2)
proof (induction vs)
  case Nil
  then show ?case by simp
next
  case (Cons w ws)
  show ?case
  proof (cases "v_id w = v_id v")
    case True
    then have "w = v"
      using key_unique [OF Cons.prems(1) _ Cons.prems(2), of w] by simp
    then show ?thesis
      using assms(3) by simp
  next
    case False
    then show ?thesis
      using Cons assms(3) by auto
  qed
qed

section \<open>Properties of the reconciliation job\<close>

lemma no_exams_no_backfill: "backfilled trig now [] violation_N1 = violation_N1"
  by (simp add: backfilled_def select_backfill_exam_def select_recent_exam_def limit1_def
      violation_N1_def)

lemma needs_backfill_N1: "needs_backfill violation_N1"
  by (simp add: needs_backfill_def violation_N1_def)

text \<open>
  Claim C9. On a violations table with unique ids, the first loop counts every row its
  cursor selected as fixed, whatever the subquery found: after the loop \<open>v_fixed\<close> is
  the number of rows with NULL \<open>exam_id\<close> and a \<open>student_id\<close>, and \<open>v_skipped\<close> is 0.
  The job returns as \<open>violations_fixed\<close> that number plus the number of mismatched
  rows the second loop visited, and \<open>violations_skipped = 0\<close>; the table it leaves is
  the table with each visited row rewritten. This holds with the trigger enabled and
  with it disabled.
\<close>

theorem backfill_counts_every_row_as_fixed:
  assumes "distinct (map v_id (violations d))"
  shows "backfill_pass trig now (exams d) (0, 0, violations d)
           = Inr (length (filter needs_backfill (violations d)), 0,
                  map (\<lambda>v. if needs_backfill v then backfilled trig now (exams d) v else v)
                    (violations d))
       \<and> fix_violations_exam_links trig now d
           = Inr ((length (filter needs_backfill (violations d))
                    + length (filter (mismatched (exams d))
                        (map (\<lambda>v. if needs_backfill v then backfilled trig now (exams d) v else v)
                          (violations d))),
                   0),
                  d\<lparr>violations :=
                      map (\<lambda>v. if mismatched (exams d) v then repaired (exams d) v else v)
                        (map (\<lambda>v. if needs_backfill v then backfilled trig now (exams d) v else v)
                          (violations d))\<rparr>)"
proof -
  have "backfill_pass trig now (exams d) (0, 0, violations d)
      = Inr (0 + length (filter needs_backfill (violations d)), 0,
             map (\<lambda>v. if needs_backfill v then backfilled trig now (exams d) v else v)
               (violations d))"
    using assms by (rule backfill_pass_result)
  then have first: "backfill_pass trig now (exams d) (0, 0, violations d)
      = Inr (length (filter needs_backfill (violations d)), 0,
             map (\<lambda>v. if needs_backfill v then backfilled trig now (exams d) v else v)
               (violations d))"
    by simp
  show ?thesis
    using first fix_violations_exam_links_result [OF assms, of trig now] by (rule conjI)
qed

lemma backfilled_W:
  "backfilled trig 5000 [exam_E1] violation_N1 = violation_N1\<lparr>v_exam_id := Some 1\<rparr>"
  "backfilled trig 5000 [exam_E1] violation_N9 = violation_N9"
  by (simp_all add: backfilled_def select_backfill_exam_def backfill_candidate_def
      backfill_rank_def timestamp_in_window_def latest_created_exam_def select_recent_exam_def
      sql_ge_def sql_le_def coalesce_def limit1_def
      exam_E1_def violation_N1_def violation_N9_def)

lemma rows_W:
  "needs_backfill violation_N1" "needs_backfill violation_N9" "\<not> needs_backfill violation_M"
  "\<not> mismatched [exam_E1] (violation_N1\<lparr>v_exam_id := Some 1\<rparr>)"
  "\<not> mismatched [exam_E1] violation_N9"
  "mismatched [exam_E1] violation_M"
  "repaired [exam_E1] violation_M = violation_M\<lparr>v_student_id := Some 1\<rparr>"
  by (simp_all add: needs_backfill_def mismatched_def repaired_def exam_student_matches_def
      select_exam_student_def limit1_def
      exam_E1_def violation_N1_def violation_N9_def violation_M_def)

theorem backfill_counts_every_row_as_fixed_witness:
  "fix_violations_exam_links True 5000 store_W
     = Inr ((3, 0),
            store_W\<lparr>violations := [violation_N1\<lparr>v_exam_id := Some 1\<rparr>, violation_N9,
                                    violation_M\<lparr>v_student_id := Some 1\<rparr>]\<rparr>)
   \<and> fix_violations_exam_links False 5000 store_W
     = Inr ((3, 0),
            store_W\<lparr>violations := [violation_N1\<lparr>v_exam_id := Some 1\<rparr>, violation_N9,
                                    violation_M\<lparr>v_student_id := Some 1\<rparr>]\<rparr>)
   \<and> backfill_pass False 5000 (exams store_W) (0, 0, violations store_W)
     = Inr (2, 0, [violation_N1\<lparr>v_exam_id := Some 1\<rparr>, violation_N9, violation_M])
   \<and> v_exam_id violation_N9 = None"
proof -
  have h: "distinct (map v_id (violations store_W))"
    by (simp add: store_W_def violation_N1_def violation_N9_def violation_M_def)
  have first: "map (\<lambda>v. if needs_backfill v then backfilled trig 5000 (exams store_W) v else v)
        (violations store_W)
      = [violation_N1\<lparr>v_exam_id := Some 1\<rparr>, violation_N9, violation_M]" for trig
    by (simp add: store_W_def backfilled_W rows_W del: One_nat_def)
  have n1: "length (filter needs_backfill (violations store_W)) = 2"
    by (simp add: store_W_def rows_W)
  have n2: "length (filter (mismatched (exams store_W))
        [violation_N1\<lparr>v_exam_id := Some 1\<rparr>, violation_N9, violation_M]) = 1"
    by (simp add: store_W_def rows_W del: One_nat_def)
  have second: "map (\<lambda>v. if mismatched (exams store_W) v then repaired (exams store_W) v else v)
        [violation_N1\<lparr>v_exam_id := Some 1\<rparr>, violation_N9, violation_M]
      = [violation_N1\<lparr>v_exam_id := Some 1\<rparr>, violation_N9,
         violation_M\<lparr>v_student_id := Some 1\<rparr>]"
    by (simp add: store_W_def rows_W del: One_nat_def)
  have job: "fix_violations_exam_links trig 5000 store_W
      = Inr ((3, 0),
             store_W\<lparr>violations := [violation_N1\<lparr>v_exam_id := Some 1\<rparr>, violation_N9,
                                     violation_M\<lparr>v_student_id := Some 1\<rparr>]\<rparr>)" for trig
    using backfill_counts_every_row_as_fixed [OF h, of trig 5000, THEN conjunct2]
    unfolding first n1 n2 second by simp
  have pass: "backfill_pass False 5000 (exams store_W) (0, 0, violations store_W)
      = Inr (2, 0, [violation_N1\<lparr>v_exam_id := Some 1\<rparr>, violation_N9, violation_M])"
    using backfill_counts_every_row_as_fixed [OF h, of False 5000, THEN conjunct1]
    unfolding first n1 .
  have "v_exam_id violation_N9 = None"
    by (simp add: violation_N9_def)
  then show ?thesis
    using job pass by simp
qed

lemma fix_store_U:
  "fix_violations_exam_links trig now store_U = Inr ((1, 0), store_U)"
proof -
  have h: "distinct (map v_id (violations store_U))"
    by (simp add: store_U_def)
  have "\<not> mismatched [] violation_N1"
    by (simp add: mismatched_def violation_N1_def)
  then show ?thesis
    using fix_violations_exam_links_result [OF h, of trig now]
    by (simp add: store_U_def needs_backfill_N1 no_exams_no_backfill)
qed

text \<open>
  Claim C3, evaluated. The store holds one violation of a student who has no exam. The
  first run of the job reports one fixed row and no skipped row and leaves the store as
  it was; the second run reports the same again. The second run therefore reports
  \<open>violations_fixed = 1\<close>, not 0, whether or not the trigger is enabled.
\<close>

theorem second_run_reports_fixed_again:
  "run_twice True 5000 5000 store_U = Inr ((1, 0), (1, 0))
   \<and> run_twice False 5000 5000 store_U = Inr ((1, 0), (1, 0))
   \<and> fix_violations_exam_links True 5000 store_U = Inr ((1, 0), store_U)
   \<and> fix_violations_exam_links False 5000 store_U = Inr ((1, 0), store_U)"
  by (simp add: run_twice_def fix_store_U)

subsection \<open>Repair of mismatched pairs\<close>

lemma mismatched_iff_owner:
  assumes "distinct (map e_id exs)" and "v_exam_id v = Some x" and "v_student_id v = Some s"
  shows "mismatched exs v = (exam_owner exs x \<noteq> Some s)"
  using assms exam_owner_matches [OF assms(1), of x s] by (simp add: mismatched_def)

lemma repaired_owner:
  assumes "v_exam_id v = Some x"
  shows "repaired exs v = v\<lparr>v_student_id := exam_owner exs x\<rparr>"
  using assms by (simp add: repaired_def select_exam_student_owner)

text \<open>
  Claim C5. On tables with unique ids, a violation that names exam \<open>x\<close> and student
  \<open>s\<close> while \<open>x\<close> is not owned by \<open>s\<close> is stored by the repair pass, and by the job as
  a whole, with \<open>student_id\<close> set to the owner of \<open>x\<close> and every other column,
  \<open>exam_id\<close> among them, as it was.
\<close>

theorem mismatch_repaired_from_exam:
  assumes "distinct (map v_id (violations d))" and "distinct (map e_id (exams d))"
    and "v \<in> set (violations d)"
    and "v_exam_id v = Some x" and "v_student_id v = Some s"
    and "exam_owner (exams d) x \<noteq> Some s"
  shows "(\<exists>fixed skipped vs'.
            repair_pass trig (exams d) (fixed0, skipped0, violations d) = Inr (fixed, skipped, vs')
          \<and> find (\<lambda>w. v_id w = v_id v) vs' = Some (v\<lparr>v_student_id := exam_owner (exams d) x\<rparr>))
       \<and> (\<exists>counts d'.
            fix_violations_exam_links trig now d = Inr (counts, d')
          \<and> find (\<lambda>w. v_id w = v_id v) (violations d')
              = Some (v\<lparr>v_student_id := exam_owner (exams d) x\<rparr>))"
proof -
  let ?rp = "\<lambda>v. if mismatched (exams d) v then repaired (exams d) v else v"
  let ?bf = "\<lambda>v. if needs_backfill v then backfilled trig now (exams d) v else v"
  have mis: "mismatched (exams d) v"
    using mismatched_iff_owner [OF assms(2,4,5)] assms(6) by simp
  have rp: "?rp v = v\<lparr>v_student_id := exam_owner (exams d) x\<rparr>"
    using mis repaired_owner [OF assms(4)] by simp
  have bf: "?bf v = v"
    using assms(4) by (simp add: needs_backfill_def)
  have "find (\<lambda>w. v_id w = v_id v) (map ?rp (violations d)) = Some (?rp v)"
    using assms(1,3) by (rule find_row_after_map) simp
  then have pass: "\<exists>fixed skipped vs'.
      repair_pass trig (exams d) (fixed0, skipped0, violations d) = Inr (fixed, skipped, vs')
      \<and> find (\<lambda>w. v_id w = v_id v) vs' = Some (v\<lparr>v_student_id := exam_owner (exams d) x\<rparr>)"
    using repair_pass_result [OF assms(1), of trig "exams d" fixed0 skipped0] rp by simp
  have both: "map ?rp (map ?bf (violations d)) = map (\<lambda>w. ?rp (?bf w)) (violations d)"
    by (simp add: comp_def)
  have val: "?rp (?bf v) = v\<lparr>v_student_id := exam_owner (exams d) x\<rparr>"
    by (simp only: bf rp)
  have "find (\<lambda>w. v_id w = v_id v) (map (\<lambda>w. ?rp (?bf w)) (violations d)) = Some (?rp (?bf v))"
    using assms(1,3) by (rule find_row_after_map) simp
  then have "find (\<lambda>w. v_id w = v_id v) (map ?rp (map ?bf (violations d)))
      = Some (v\<lparr>v_student_id := exam_owner (exams d) x\<rparr>)"
    by (simp only: both val)
  then have job: "\<exists>counts d'.
      fix_violations_exam_links trig now d = Inr (counts, d')
      \<and> find (\<lambda>w. v_id w = v_id v) (violations d')
          = Some (v\<lparr>v_student_id := exam_owner (exams d) x\<rparr>)"
    using fix_violations_exam_links_result [OF assms(1), of trig now] by simp
  show ?thesis
    using pass job by (rule conjI)
qed

theorem mismatch_repaired_from_exam_witness:
  "(\<exists>counts d'.
      fix_violations_exam_links True 5000 store_M = Inr (counts, d')
    \<and> find (\<lambda>w. v_id w = 30) (violations d') = Some (violation_M\<lparr>v_student_id := Some 1\<rparr>))
   \<and> v_exam_id (violation_M\<lparr>v_student_id := Some 1\<rparr>) = Some 1"
proof -
  have h1: "distinct (map v_id (violations store_M))"
    by (simp add: store_M_def violation_V1_def violation_M_def)
  have h2: "distinct (map e_id (exams store_M))"
    by (simp add: store_M_def exam_E1_def exam_E2_def)
  have h3: "violation_M \<in> set (violations store_M)"
    by (simp add: store_M_def)
  have h4: "v_exam_id violation_M = Some 1" and h5: "v_student_id violation_M = Some 2"
    and id: "v_id violation_M = 30"
    by (simp_all add: violation_M_def)
  have own: "exam_owner (exams store_M) 1 = Some 1"
    by (simp add: exam_owner_def store_M_def exam_E1_def)
  then have h6: "exam_owner (exams store_M) 1 \<noteq> Some 2"
    by simp
  have "\<exists>counts d'.
      fix_violations_exam_links True 5000 store_M = Inr (counts, d')
      \<and> find (\<lambda>w. v_id w = v_id violation_M) (violations d')
          = Some (violation_M\<lparr>v_student_id := exam_owner (exams store_M) 1\<rparr>)"
    using mismatch_repaired_from_exam [OF h1 h2 h3 h4 h5 h6, of True 0 0 5000]
    by (rule conjunct2)
  then show ?thesis
    unfolding own id using h4 by simp
qed

subsection \<open>Backfill of missing exams\<close>

lemma backfill_key_less:
  "((backfill_rank now v c, desc_nulls_last (e_started_at c))
      < (backfill_rank now v e, desc_nulls_last (e_started_at e)))
   = ranked_before now v c e"
  unfolding less_prod_simp desc_nulls_last_less ranked_before_def
  by auto

lemma select_backfill_exam_top:
  assumes "select_backfill_exam now exs v = Some x"
  shows "\<exists>e \<in> set exs. e_id e = x \<and> backfill_candidate now exs v e \<and>
           (\<forall>c \<in> set exs. backfill_candidate now exs v c \<longrightarrow> \<not> ranked_before now v c e)"
proof -
  from select_backfill_exam_Some [OF assms]
  obtain e where e: "e \<in> set exs" "e_id e = x" "backfill_candidate now exs v e"
    and least: "\<forall>c \<in> set exs. backfill_candidate now exs v c \<longrightarrow>
        (backfill_rank now v e, desc_nulls_last (e_started_at e))
          \<le> (backfill_rank now v c, desc_nulls_last (e_started_at c))"
    by blast
  have "\<not> ranked_before now v c e" if "c \<in> set exs" "backfill_candidate now exs v c" for c
  proof -
    have "(backfill_rank now v e, desc_nulls_last (e_started_at e))
        \<le> (backfill_rank now v c, desc_nulls_last (e_started_at c))"
      using least that by blast
    then have "\<not> (backfill_rank now v c, desc_nulls_last (e_started_at c))
        < (backfill_rank now v e, desc_nulls_last (e_started_at e))"
      by (rule leD)
    then show ?thesis
      unfolding backfill_key_less .
  qed
  then show ?thesis
    using e by blast
qed

text \<open>
  What the first loop stores. On a violations table with unique ids, a violation with
  NULL \<open>exam_id\<close> and student \<open>s\<close> leaves the backfill pass with \<open>exam_id\<close> set to the
  choice of the job's subquery. The rows the subquery's \<open>WHERE\<close> clause lets through
  are the exams of \<open>s\<close> whose window from \<open>started_at\<close> to \<open>completed_at\<close> (or now)
  contains the violation's timestamp, and the most recently created exam of \<open>s\<close> if it
  has no \<open>started_at\<close>; the choice is such a row that no other such row precedes by rank
  and then by \<open>started_at\<close> descending, nulls last. When the subquery is empty the row
  keeps its NULL \<open>exam_id\<close>, unless the trigger is enabled and resolves it.
\<close>

lemma backfill_stores_subquery_choice:
  assumes "distinct (map v_id (violations d))" and "v \<in> set (violations d)"
    and "v_exam_id v = None" and "v_student_id v = Some s"
  shows "(\<exists>fixed skipped vs'.
            backfill_pass trig now (exams d) (0, 0, violations d) = Inr (fixed, skipped, vs')
          \<and> find (\<lambda>w. v_id w = v_id v) vs'
              = Some (v\<lparr>v_exam_id :=
                  (case select_backfill_exam now (exams d) v of
                     Some x \<Rightarrow> Some x
                   | None \<Rightarrow> if trig then select_recent_exam (exams d) (Some s) else None)\<rparr>))
       \<and> (case select_backfill_exam now (exams d) v of
            None \<Rightarrow> \<not> (\<exists>e \<in> set (exams d). backfill_candidate now (exams d) v e)
          | Some x \<Rightarrow>
              \<exists>e \<in> set (exams d). e_id e = x \<and> backfill_candidate now (exams d) v e \<and>
                (\<forall>c \<in> set (exams d).
                   backfill_candidate now (exams d) v c \<longrightarrow> \<not> ranked_before now v c e))
       \<and> (\<forall>e. backfill_candidate now (exams d) v e =
              (e_student_id e = Some s \<and>
               (timestamp_in_window now (v_timestamp v) e \<or>
                (e_started_at e = None \<and> latest_created_exam (exams d) (Some s) = Some (e_id e)))))"
proof -
  let ?bf = "\<lambda>v. if needs_backfill v then backfilled trig now (exams d) v else v"
  have bf: "?bf v = v\<lparr>v_exam_id :=
      (case select_backfill_exam now (exams d) v of
         Some x \<Rightarrow> Some x
       | None \<Rightarrow> if trig then select_recent_exam (exams d) (Some s) else None)\<rparr>"
    using assms(3,4) by (simp add: needs_backfill_def backfilled_def cong: option.case_cong)
  have "find (\<lambda>w. v_id w = v_id v) (map ?bf (violations d)) = Some (?bf v)"
    using assms(1,2) by (rule find_row_after_map) simp
  then have pass: "\<exists>fixed skipped vs'.
      backfill_pass trig now (exams d) (0, 0, violations d) = Inr (fixed, skipped, vs')
      \<and> find (\<lambda>w. v_id w = v_id v) vs'
          = Some (v\<lparr>v_exam_id :=
              (case select_backfill_exam now (exams d) v of
                 Some x \<Rightarrow> Some x
               | None \<Rightarrow> if trig then select_recent_exam (exams d) (Some s) else None)\<rparr>)"
    using backfill_pass_result [OF assms(1), of trig now "exams d" 0 0] bf by (simp only:) blast
  have pick: "case select_backfill_exam now (exams d) v of
      None \<Rightarrow> \<not> (\<exists>e \<in> set (exams d). backfill_candidate now (exams d) v e)
    | Some x \<Rightarrow>
        \<exists>e \<in> set (exams d). e_id e = x \<and> backfill_candidate now (exams d) v e \<and>
          (\<forall>c \<in> set (exams d).
             backfill_candidate now (exams d) v c \<longrightarrow> \<not> ranked_before now v c e)"
  proof (cases "select_backfill_exam now (exams d) v")
    case None
    then show ?thesis
      using select_backfill_exam_None [of now "exams d" v] by simp
  next
    case (Some x)
    then show ?thesis
      using select_backfill_exam_top [OF Some] by simp
  qed
  have cand: "backfill_candidate now (exams d) v e =
      (e_student_id e = Some s \<and>
       (timestamp_in_window now (v_timestamp v) e \<or>
        (e_started_at e = None \<and> latest_created_exam (exams d) (Some s) = Some (e_id e))))" for e
    using assms(4)
    by (cases "e_student_id e"; cases "latest_created_exam (exams d) (Some s)")
      (auto simp: backfill_candidate_def)
  show ?thesis
    using pass pick cand by (intro conjI allI)
qed

text \<open>
  The in-window case of the backfill: with exam A from 1000 to 4600 and exam B open
  since 8200, the violation reported at 2800 is given exam A.
\<close>

lemma select_backfill_AB: "select_backfill_exam 9000 (exams store_AB) violation_AB = Some 1"
  by (simp add: select_backfill_exam_def backfill_candidate_def backfill_rank_def
      timestamp_in_window_def latest_created_exam_def sql_ge_def sql_le_def coalesce_def
      desc_nulls_last_def desc_nulls_first_def limit1_def
      store_AB_def exam_A_def exam_B_def violation_AB_def)

lemma backfill_in_window_example:
  "(\<exists>fixed skipped vs'.
      backfill_pass True 9000 (exams store_AB) (0, 0, violations store_AB)
        = Inr (fixed, skipped, vs')
    \<and> find (\<lambda>w. v_id w = 20) vs' = Some (violation_AB\<lparr>v_exam_id := Some 1\<rparr>))
   \<and> e_id exam_A = 1 \<and> e_id exam_B = 2"
proof -
  have h1: "distinct (map v_id (violations store_AB))"
    by (simp add: store_AB_def)
  have h2: "violation_AB \<in> set (violations store_AB)"
    by (simp add: store_AB_def)
  have h3: "v_exam_id violation_AB = None" and h4: "v_student_id violation_AB = Some 1"
    and id: "v_id violation_AB = 20"
    by (simp_all add: violation_AB_def)
  have "\<exists>fixed skipped vs'.
      backfill_pass True 9000 (exams store_AB) (0, 0, violations store_AB)
        = Inr (fixed, skipped, vs')
      \<and> find (\<lambda>w. v_id w = v_id violation_AB) vs'
          = Some (violation_AB\<lparr>v_exam_id :=
              (case select_backfill_exam 9000 (exams store_AB) violation_AB of
                 Some x \<Rightarrow> Some x
               | None \<Rightarrow> if True then select_recent_exam (exams store_AB) (Some 1) else None)\<rparr>)"
    using backfill_stores_subquery_choice [OF h1 h2 h3 h4, of True 9000]
    by (rule conjunct1)
  then have "\<exists>fixed skipped vs'.
      backfill_pass True 9000 (exams store_AB) (0, 0, violations store_AB)
        = Inr (fixed, skipped, vs')
      \<and> find (\<lambda>w. v_id w = 20) vs' = Some (violation_AB\<lparr>v_exam_id := Some 1\<rparr>)"
    unfolding select_backfill_AB id by simp
  then show ?thesis
    by (simp add: exam_A_def exam_B_def)
qed

lemma out_of_window_subquery:
  "select_backfill_exam 5000 (exams store_E3) violation_N1 = None"
  "select_backfill_exam 9000 [exam_A] violation_late = None"
  "select_recent_exam (exams store_E3) (Some 1) = None"
  by (simp_all add: select_backfill_exam_def backfill_candidate_def backfill_rank_def
      timestamp_in_window_def latest_created_exam_def select_recent_exam_def
      active_or_completed_def sql_ge_def sql_le_def coalesce_def
      desc_nulls_last_def desc_nulls_first_def limit1_def
      store_E3_def exam_E3_def exam_A_def violation_N1_def violation_late_def)

lemma out_of_window_spec:
  "spec_backfill_exam 5000 (exams store_E3) violation_N1 = Some 3"
  "spec_backfill_exam 9000 [exam_A] violation_late = Some 1"
  by (simp_all add: spec_backfill_exam_def backfill_rank_def timestamp_in_window_def
      sql_ge_def sql_le_def coalesce_def desc_nulls_last_def limit1_def
      store_E3_def exam_E3_def exam_A_def violation_N1_def violation_late_def)

lemma fix_store_E3:
  "fix_violations_exam_links trig 5000 store_E3 = Inr ((1, 0), store_E3)"
proof -
  have h: "distinct (map v_id (violations store_E3))"
    by (simp add: store_E3_def)
  have bf: "backfilled trig 5000 [exam_E3] violation_N1 = violation_N1"
    using out_of_window_subquery(1,3)
    by (simp add: backfilled_def store_E3_def violation_N1_def)
  have "\<not> mismatched [exam_E3] violation_N1"
    by (simp add: mismatched_def violation_N1_def)
  then show ?thesis
    using fix_violations_exam_links_result [OF h, of trig 5000] bf
    by (simp add: store_E3_def needs_backfill_N1)
qed

lemma backfill_pass_U:
  "backfill_pass trig 5000 (exams store_U) (0, 0, violations store_U) = Inr (1, 0, [violation_N1])"
proof -
  have h: "distinct (map v_id (violations store_U))"
    by (simp add: store_U_def)
  show ?thesis
    using backfill_pass_result [OF h, of trig 5000 "exams store_U" 0 0]
    by (simp add: store_U_def needs_backfill_N1 no_exams_no_backfill)
qed

text \<open>
  Claim C4, evaluated. Student 1 has one exam, started at 3000 and abandoned, and a
  violation without an exam reported at 1300, outside the exam's window. By the claim
  the exam is the rank-2 candidate and the row is given exam 3. The job's subquery lets
  an exam outside the window through only if it has no \<open>started_at\<close>, so it finds
  nothing: the job leaves \<open>exam_id\<close> NULL, with the trigger enabled or not, and reports
  the row as fixed. The same subquery is empty for exam A, completed at 4600, and the
  violation reported at 7000. With no exam at all the unresolved row is counted as
  fixed, not as skipped.
\<close>

theorem backfill_fallback_skips_started_exams:
  "fix_violations_exam_links True 5000 store_E3 = Inr ((1, 0), store_E3)
   \<and> fix_violations_exam_links False 5000 store_E3 = Inr ((1, 0), store_E3)
   \<and> violations store_E3 = [violation_N1] \<and> v_exam_id violation_N1 = None
   \<and> spec_backfill_exam 5000 (exams store_E3) violation_N1 = Some 3
   \<and> select_backfill_exam 9000 [exam_A] violation_late = None
   \<and> spec_backfill_exam 9000 [exam_A] violation_late = Some 1
   \<and> backfill_pass True 5000 (exams store_U) (0, 0, violations store_U)
     = Inr (1, 0, [violation_N1])
   \<and> backfill_pass False 5000 (exams store_U) (0, 0, violations store_U)
     = Inr (1, 0, [violation_N1])"
proof -
  have rows: "violations store_E3 = [violation_N1]" and null: "v_exam_id violation_N1 = None"
    by (simp_all add: store_E3_def violation_N1_def)
  show ?thesis
    using rows null fix_store_E3 [of True] fix_store_E3 [of False]
      out_of_window_spec out_of_window_subquery(2) backfill_pass_U [of True]
      backfill_pass_U [of False]
    by (intro conjI)
qed

section \<open>Properties of the aggregation view\<close>

lemma violation_joins_I1:
  assumes "distinct (map e_id exs)" and "e \<in> set exs" and "violation_joins e v"
  shows "I1 exs v"
proof -
  obtain s where s: "v_student_id v = Some s" "e_student_id e = Some s"
    and x: "v_exam_id v = Some (e_id e)"
    using assms(3)
    by (cases "v_student_id v"; cases "e_student_id e"; cases "v_exam_id v")
      (auto simp: violation_joins_def)
  have "exam_student_matches exs (Some (e_id e)) (Some s)"
    using assms(2) s(2) by (auto simp: exam_student_matches_def)
  then have "exam_owner exs (e_id e) = Some s"
    using exam_owner_matches [OF assms(1)] by simp
  then show ?thesis
    using s(1) x by (simp add: I1_def)
qed

lemma left_join_only_linked:
  assumes "distinct (map e_id exs)" and "e \<in> set exs"
  shows "left_join (filter (I1 exs) vs) (violation_joins e) = left_join vs (violation_joins e)"
proof -
  have "filter (violation_joins e) (filter (I1 exs) vs) = filter (violation_joins e) vs"
    unfolding filter_filter
    using violation_joins_I1 [OF assms] by (intro filter_cong) auto
  then show ?thesis
    by (simp add: left_join_def)
qed

lemma joined_rows_only_linked:
  assumes "distinct (map e_id (exams d))"
  shows "joined_rows (d\<lparr>violations := filter (I1 (exams d)) (violations d)\<rparr>) = joined_rows d"
  using left_join_only_linked [OF assms]
  by (simp add: joined_rows_def cong: map_cong)

lemma left_join_Some:
  assumes "Some v \<in> set (left_join vs cond)"
  shows "v \<in> set vs \<and> cond v"
proof (cases "filter cond vs")
  case Nil
  then show ?thesis
    using assms by (simp add: left_join_def)
next
  case (Cons m ms)
  then have "Some v \<in> set (map Some (filter cond vs))"
    using assms by (simp add: left_join_def)
  then show ?thesis
    by auto
qed

lemma joined_rows_linked:
  assumes "(e, s, et, Some v) \<in> set (joined_rows d)"
  shows "e \<in> set (exams d) \<and> v \<in> set (violations d) \<and> violation_joins e v"
  using assms by (auto simp: joined_rows_def dest: left_join_Some)

text \<open>
  Claim C10. The violations aggregated into the rollup of an exam are joined on both
  columns: every joined row carries a violation that names that exam and the exam's
  student, hence satisfies I1 when exam ids are unique. The view does not depend on any
  other violation: computed from the violations that satisfy I1 alone it is the same
  view, so a violation whose student is not the owner of its exam is counted in no row.
\<close>

theorem rollup_ignores_mismatched_violations:
  assumes "distinct (map e_id (exams d))"
  shows "violations_by_exam_student (d\<lparr>violations := filter (I1 (exams d)) (violations d)\<rparr>)
           = violations_by_exam_student d
       \<and> (\<forall>e s et v. (e, s, et, Some v) \<in> set (joined_rows d) \<longrightarrow>
             v \<in> set (violations d) \<and> v_exam_id v = Some (e_id e)
           \<and> v_student_id v = e_student_id e \<and> e_student_id e \<noteq> None \<and> I1 (exams d) v)"
proof -
  have same: "violations_by_exam_student (d\<lparr>violations := filter (I1 (exams d)) (violations d)\<rparr>)
      = violations_by_exam_student d"
    using joined_rows_only_linked [OF assms] by (simp add: violations_by_exam_student_def)
  have "v \<in> set (violations d) \<and> v_exam_id v = Some (e_id e)
      \<and> v_student_id v = e_student_id e \<and> e_student_id e \<noteq> None \<and> I1 (exams d) v"
    if "(e, s, et, Some v) \<in> set (joined_rows d)" for e s et v
  proof -
    have e: "e \<in> set (exams d)" and v: "v \<in> set (violations d)" and j: "violation_joins e v"
      using joined_rows_linked [OF that] by simp_all
    have "I1 (exams d) v"
      using assms e j by (rule violation_joins_I1)
    moreover have "v_exam_id v = Some (e_id e) \<and> v_student_id v = e_student_id e
        \<and> e_student_id e \<noteq> None"
      using j
      by (cases "v_student_id v"; cases "e_student_id e"; cases "v_exam_id v")
        (auto simp: violation_joins_def)
    ultimately show ?thesis
      using v by simp
  qed
  then show ?thesis
    using same by blast
qed

lemma linked_rows_R: "filter (I1 (exams store_R)) (violations store_R) = [violation_V1]"
  by (simp add: store_R_def I1_def exam_owner_def exam_E1_def violation_V1_def violation_M_def)

lemma rollup_R_linked:
  "violations_by_exam_student (store_R\<lparr>violations := [violation_V1]\<rparr>)
     = [\<lparr>r_exam_id = 1, r_student_id = Some 1, r_student_name = Some ''Asha'',
         r_student_identifier = Some ''R-001'', r_subject_code = None, r_subject_name = None,
         r_violation_count = 1, r_violation_types = Some [''tab_switch''],
         r_first_violation = Some 1300, r_last_violation = Some 1300\<rparr>]"
  by (simp add: violations_by_exam_student_def rollups_def joined_rows_def left_join_def
      violation_joins_def group_by_def et_column_def rollup_row_def group_violations_def
      array_agg_distinct_def sql_min_def sql_max_def non_null_def
      store_R_def student_1_def exam_E1_def violation_V1_def)

theorem rollup_ignores_mismatched_violations_witness:
  "violations_by_exam_student store_R
     = [\<lparr>r_exam_id = 1, r_student_id = Some 1, r_student_name = Some ''Asha'',
         r_student_identifier = Some ''R-001'', r_subject_code = None, r_subject_name = None,
         r_violation_count = 1, r_violation_types = Some [''tab_switch''],
         r_first_violation = Some 1300, r_last_violation = Some 1300\<rparr>]
   \<and> violations store_R = [violation_V1, violation_M]"
proof -
  have h: "distinct (map e_id (exams store_R))"
    by (simp add: store_R_def)
  have "violations_by_exam_student
        (store_R\<lparr>violations := filter (I1 (exams store_R)) (violations store_R)\<rparr>)
      = violations_by_exam_student store_R"
    using rollup_ignores_mismatched_violations [OF h] by (rule conjunct1)
  then have "violations_by_exam_student store_R
      = violations_by_exam_student (store_R\<lparr>violations := [violation_V1]\<rparr>)"
    unfolding linked_rows_R by (rule sym)
  then show ?thesis
    unfolding rollup_R_linked by (simp add: store_R_def)
qed

section \<open>Properties of the tab-liveness detector\<close>

text \<open>
  Claim C8. When \<open>BroadcastChannel\<close> is not available, \<open>checkSingleTab\<close> leaves the
  step in the state \<open>error\<close>, never \<open>success\<close>, whatever the page state was, and
  acquires nothing: no timer, channel or listener is added and the shared slot is not
  written.
\<close>

theorem unsupported_browser_fails_closed:
  "ss_status (singleTabCheck (checkSingleTab False p)) = status_error
   \<and> ss_status (singleTabCheck (checkSingleTab False p)) \<noteq> status_success
   \<and> scheduled (checkSingleTab False p) = scheduled p
   \<and> channels (checkSingleTab False p) = channels p
   \<and> storage_handlers (checkSingleTab False p) = storage_handlers p
   \<and> local_slot (checkSingleTab False p) = local_slot p"
  by (simp add: checkSingleTab_def)

lemma first_run:
  "checkSingleTab True initial_page =
     \<lparr>singleTabCheck = \<lparr>ss_status = status_running,
                         ss_message = Some ''Checking for multiple tabs...''\<rparr>,
      tabCheckChannelRef = Some 0, tabCheckIntervalRef = Some 5,
      scheduled =
        [\<lparr>t_handle = 1, t_kind = heartbeatInterval, t_channel = 0\<rparr>,
         \<lparr>t_handle = 2, t_kind = requestInterval, t_channel = 0\<rparr>,
         \<lparr>t_handle = 3, t_kind = storageInterval, t_channel = 0\<rparr>,
         \<lparr>t_handle = 4, t_kind = initialCheckTimeout, t_channel = 0\<rparr>,
         \<lparr>t_handle = 5, t_kind = continuousCheckInterval, t_channel = 0\<rparr>],
      channels = [\<lparr>ch_handle = 0, ch_closed = False, ch_onmessage = True,
                   ch_cleanup = Some [4, 1, 2, 3, 5]\<rparr>],
      storage_handlers = [0], local_slot = Some 0, next_handle = 6\<rparr>"
  by (simp add: checkSingleTab_def initial_page_def)

lemma second_run_timers:
  "scheduled (checkSingleTab True (checkSingleTab True initial_page)) =
     [\<lparr>t_handle = 1, t_kind = heartbeatInterval, t_channel = 0\<rparr>,
      \<lparr>t_handle = 2, t_kind = requestInterval, t_channel = 0\<rparr>,
      \<lparr>t_handle = 3, t_kind = storageInterval, t_channel = 0\<rparr>,
      \<lparr>t_handle = 4, t_kind = initialCheckTimeout, t_channel = 0\<rparr>,
      \<lparr>t_handle = 7, t_kind = heartbeatInterval, t_channel = 6\<rparr>,
      \<lparr>t_handle = 8, t_kind = requestInterval, t_channel = 6\<rparr>,
      \<lparr>t_handle = 9, t_kind = storageInterval, t_channel = 6\<rparr>,
      \<lparr>t_handle = 10, t_kind = initialCheckTimeout, t_channel = 6\<rparr>,
      \<lparr>t_handle = 11, t_kind = continuousCheckInterval, t_channel = 6\<rparr>]"
  unfolding first_run by (simp add: checkSingleTab_def clear_timer_def close_channel_def)

text \<open>
  Claim C7, evaluated. After one run of the check, the unmount cleanup releases
  everything. After the check is run a second time, four timers of the first run are
  still scheduled and its storage listener is still registered, since the re-run path
  closes the old channel and clears the continuous interval only; the unmount cleanup
  that follows releases the second run and leaves the timers and the listener of the
  first run in place.
\<close>

theorem rerun_leaves_timers_scheduled:
  "timers_of_run 0 (checkSingleTab True (checkSingleTab True initial_page))
     = [heartbeatInterval, requestInterval, storageInterval, initialCheckTimeout]
   \<and> storage_handlers (checkSingleTab True (checkSingleTab True initial_page)) = [0, 6]
   \<and> timers_of_run 0 (unmount (checkSingleTab True (checkSingleTab True initial_page)))
     = [heartbeatInterval, requestInterval, storageInterval, initialCheckTimeout]
   \<and> storage_handlers (unmount (checkSingleTab True (checkSingleTab True initial_page))) = [0]
   \<and> scheduled (unmount (checkSingleTab True initial_page)) = []
   \<and> storage_handlers (unmount (checkSingleTab True initial_page)) = []"
proof -
  have once: "scheduled (unmount (checkSingleTab True initial_page)) = []
      \<and> storage_handlers (unmount (checkSingleTab True initial_page)) = []"
    unfolding first_run by (simp add: unmount_def cleanup_def clear_timer_def)
  have twice: "timers_of_run 0 (checkSingleTab True (checkSingleTab True initial_page))
      = [heartbeatInterval, requestInterval, storageInterval, initialCheckTimeout]"
    unfolding timers_of_run_def second_run_timers by simp
  have handlers: "storage_handlers (checkSingleTab True (checkSingleTab True initial_page)) = [0, 6]"
    unfolding first_run by (simp add: checkSingleTab_def)
  have after: "timers_of_run 0 (unmount (checkSingleTab True (checkSingleTab True initial_page)))
      = [heartbeatInterval, requestInterval, storageInterval, initialCheckTimeout]
    \<and> storage_handlers (unmount (checkSingleTab True (checkSingleTab True initial_page))) = [0]"
    unfolding first_run
    by (simp add: checkSingleTab_def unmount_def cleanup_def clear_timer_def close_channel_def
        timers_of_run_def)
  show ?thesis
    using once twice handlers after by simp
qed

end
